theory Spec2Isabelle
  imports Complex_Main "HOL-Library.AList"
begin

section \<open>Python primitives used by esmond/cassandra.py\<close>

text \<open>
  Python exceptions are values. Only the exceptions that the modelled code can raise
  or catch are listed.
\<close>

datatype py_error =
    ValueError
  | TypeError
  | KeyError
  | IndexError
  | AssertionError
  | ZeroDivisionError
  | OverflowError
  | UnboundLocalError
  | NotFoundException
  | MaximumRetryException

text \<open>
  \<open>str.replace(old, new)\<close>: scan from the left, replace every non-overlapping
  occurrence of \<open>old\<close>. For an empty \<open>old\<close> Python puts \<open>new\<close> before every character
  and at the end.
\<close>

function str_replace :: "string \<Rightarrow> string \<Rightarrow> string \<Rightarrow> string" where
  "str_replace old new s =
     (if old = [] then new @ concat (map (\<lambda>c. c # new) s)
      else if s = [] then []
      else if take (length old) s = old
        then new @ str_replace old new (drop (length old) s)
        else hd s # str_replace old new (tl s))"
  by pat_completeness auto
termination
  by (relation "measure (\<lambda>(old, new, s). length s)") auto

declare str_replace.simps [simp del]

text \<open>\<open>sep.join(xs)\<close>.\<close>

fun join :: "string \<Rightarrow> string list \<Rightarrow> string" where
  "join sep [] = []"
| "join sep [x] = x"
| "join sep (x # y # ys) = x @ sep @ join sep (y # ys)"

text \<open>
  \<open>str(n)\<close> for an integer: the decimal digits, with a leading minus sign for a negative
  number.
\<close>

definition digit_char :: "nat \<Rightarrow> char" where
  "digit_char n = ''0123456789'' ! n"

function str_nat :: "nat \<Rightarrow> string" where
  "str_nat n = (if n < 10 then [digit_char n] else str_nat (n div 10) @ [digit_char (n mod 10)])"
  by pat_completeness auto
termination
  by (relation "measure id") auto

declare str_nat.simps [simp del]

definition str_int :: "int \<Rightarrow> string" where
  "str_int i = (if i < 0 then CHR ''-'' # str_nat (nat (- i)) else str_nat (nat i))"

text \<open>
  A slice \<open>s[a:b]\<close> with non-negative bounds, and \<open>s[a:]\<close>. Python clips both bounds to
  the length and yields the empty string when \<open>b \<le> a\<close>.
\<close>

definition slice :: "'a list \<Rightarrow> nat \<Rightarrow> nat \<Rightarrow> 'a list" where
  "slice s a b = take (b - a) (drop a s)"

text \<open>Truthiness of an optional integer argument: \<open>None\<close> and \<open>0\<close> are false.\<close>

fun truthy :: "int option \<Rightarrow> bool" where
  "truthy None = False"
| "truthy (Some n) = (n \<noteq> 0)"

section \<open>The row-key codec\<close>

definition KEY_DELIMITER :: string where
  "KEY_DELIMITER = '':''"

text \<open>The default of the \<open>escape\<close> argument of \<open>_split_rowkey\<close>: one backslash.\<close>

definition BACKSLASH :: string where
  "BACKSLASH = [CHR 0x5C]"

text \<open>
  \<open>escape_path\<close>: every step has each delimiter replaced by a backslash followed by the
  delimiter. Nothing else is replaced; in particular a backslash in a step stays as it
  is.
\<close>

definition escape_path :: "string list \<Rightarrow> string list" where
  "escape_path path = map (\<lambda>step. str_replace KEY_DELIMITER (BACKSLASH @ KEY_DELIMITER) step) path"

text \<open>
  \<open>get_rowkey(path, freq=None, year=None)\<close>: \<open>freq\<close> and \<open>year\<close> are appended when they
  are truthy.
\<close>

definition get_rowkey :: "string list \<Rightarrow> int option \<Rightarrow> int option \<Rightarrow> string" where
  "get_rowkey path freq year =
     (let appends = (if truthy freq then [str_int (the freq)] else []);
          appends = appends @ (if truthy year then [str_int (the year)] else [])
      in join KEY_DELIMITER (escape_path path @ appends))"

text \<open>
  \<open>_split_rowkey(s, escape)\<close>. The first loop collects the indices of the delimiters that
  are not preceded by the escape; the second loop cuts the string at these indices and
  removes every escape from each piece but the last one, which is appended as it is.
\<close>

definition split_indices :: "string \<Rightarrow> string \<Rightarrow> nat list" where
  "split_indices s escape =
     filter (\<lambda>i. [s ! i] = KEY_DELIMITER \<and>
                 (if i > 0 \<and> [s ! (i - 1)] \<noteq> escape then True else i = 0))
       [0..<length s]"

fun split_loop :: "string \<Rightarrow> string \<Rightarrow> nat list \<Rightarrow> nat \<Rightarrow> string list \<Rightarrow> string list" where
  "split_loop s escape [] lst out = out @ [drop lst s]"
| "split_loop s escape (i # is) lst out =
     split_loop s escape is (i + 1) (out @ [str_replace escape [] (slice s lst i)])"

definition split_rowkey :: "string \<Rightarrow> string \<Rightarrow> string list" where
  "split_rowkey s escape = split_loop s escape (split_indices s escape) 0 []"

text \<open>
  Auxiliary scan used in the proofs about \<open>split_indices\<close>: the same indices, computed by
  recursion over the string. \<open>i\<close> is the index of the head, \<open>pe\<close> tells whether the
  character before the head is the escape.
\<close>

fun scan :: "char \<Rightarrow> nat \<Rightarrow> bool \<Rightarrow> string \<Rightarrow> nat list" where
  "scan e i pe [] = []"
| "scan e i pe (c # cs) = (if c = CHR '':'' \<and> \<not> pe then [i] else []) @ scan e (Suc i) (c = e) cs"


section \<open>Time\<close>

text \<open>
  A timestamp is an integer number of milliseconds since the Unix epoch. A Python
  \<open>datetime\<close> is modelled by the same number (the code builds every \<open>datetime\<close> from such
  an integer; microseconds are not modelled).

  \<open>dt_year\<close> is the \<open>year\<close> attribute of the UTC \<open>datetime\<close>: the day number of the
  proleptic Gregorian calendar (day 1 is 0001-01-01, the epoch is day 719163) is
  decomposed into cycles of 400, 100, 4 and 1 years, as the standard library does.
\<close>

definition ord_to_year :: "int \<Rightarrow> int" where
  "ord_to_year ordinal =
     (let n = ordinal - 1;
          n400 = n div 146097; n = n mod 146097;
          n100 = n div 36524; n = n mod 36524;
          n4 = n div 1461; n = n mod 1461;
          n1 = n div 365;
          year = n400 * 400 + 1 + n100 * 100 + n4 * 4 + n1
      in if n1 = 4 \<or> n100 = 4 then year - 1 else year)"

text \<open>
  The same year, written for the proofs as nested cycles: the year within a cycle of 4
  years, of 100 years and of 400 years.
\<close>

definition y1 :: "int \<Rightarrow> int" where
  "y1 r = min (r div 365) 3"

definition y4 :: "int \<Rightarrow> int" where
  "y4 r = 4 * (r div 1461) + y1 (r mod 1461)"

definition y100 :: "int \<Rightarrow> int" where
  "y100 r = min (100 * (r div 36524) + y4 (r mod 36524)) 399"

definition dt_year :: "int \<Rightarrow> int" where
  "dt_year ms = ord_to_year (ms div 1000 div 86400 + 719163)"

text \<open>
  \<open>datetime.datetime.utcfromtimestamp(float(d)/1000.0)\<close>: a \<open>ValueError\<close> outside the
  years 1 to 9999.
\<close>

definition utcfromtimestamp_ms :: "int \<Rightarrow> py_error + int" where
  "utcfromtimestamp_ms d = (if 1 \<le> dt_year d \<and> dt_year d \<le> 9999 then Inr d else Inl ValueError)"

text \<open>
  \<open>ts_to_jstime\<close>: \<open>calendar.timegm(ts.utctimetuple()) * 1000\<close>, the timestamp cut down to
  whole seconds, in milliseconds.
\<close>

definition ts_to_jstime :: "int \<Rightarrow> int" where
  "ts_to_jstime t = (t div 1000) * 1000"

definition SEEK_BACK_THRESHOLD :: int where
  "SEEK_BACK_THRESHOLD = 2592000000"

section \<open>The column store\<close>

text \<open>
  The store is the pycassa client of a Cassandra cluster; it is not part of the
  repository. Its contract, as far as the code relies on it, is modelled here. A row is a
  list of (column name, value) pairs; column names are longs and a slice comes back in
  column order. A column family maps a row key to its row, the empty row standing for a
  key that is absent. The value of a standard column is the decoded JSON number; the
  value of a super column is the dictionary of its sub-columns.
\<close>

type_synonym subcols = "(string \<times> int) list"
type_synonym 'v row = "(int \<times> 'v) list"
type_synonym 'v column_family = "string \<Rightarrow> 'v row"

datatype cf_name = RawCF | RateCF | AggCF | StatCF

text \<open>
  One row's slice: the columns between \<open>column_start\<close> and \<open>column_finish\<close> (both
  inclusive) in the order of traversal, at most \<open>column_count\<close> of them. With
  \<open>column_reversed\<close> the traversal is from the greatest column down and \<open>column_start\<close> is
  the upper bound.
\<close>

definition row_slice :: "'v row \<Rightarrow> int \<Rightarrow> int \<Rightarrow> int \<Rightarrow> bool \<Rightarrow> 'v row" where
  "row_slice r column_start column_finish column_count column_reversed =
     (let cols = sort_key fst r in
      if column_reversed
      then take (nat column_count)
             (filter (\<lambda>c. column_finish \<le> fst c \<and> fst c \<le> column_start) (rev cols))
      else take (nat column_count)
             (filter (\<lambda>c. column_start \<le> fst c \<and> fst c \<le> column_finish) cols))"

text \<open>
  \<open>multiget\<close>: the slices of the requested rows, in the order of the requested keys; a
  row with no column in the slice is left out of the result.
\<close>

definition multiget ::
  "'v column_family \<Rightarrow> string list \<Rightarrow> int \<Rightarrow> int \<Rightarrow> int \<Rightarrow> bool \<Rightarrow> (string \<times> 'v row) list" where
  "multiget cfam keys column_start column_finish column_count column_reversed =
     filter (\<lambda>kv. snd kv \<noteq> [])
       (map (\<lambda>k. (k, row_slice (cfam k) column_start column_finish column_count column_reversed))
          keys)"

text \<open>\<open>multiget_count\<close>: for every requested key the number of its columns in the range.\<close>

definition multiget_count ::
  "'v column_family \<Rightarrow> string list \<Rightarrow> int \<Rightarrow> int \<Rightarrow> (string \<times> int) list" where
  "multiget_count cfam keys column_start column_finish =
     map (\<lambda>k. (k, int (length (filter (\<lambda>c. column_start \<le> fst c \<and> fst c \<le> column_finish)
                                  (cfam k)))))
       keys"

text \<open>
  \<open>get(key, super_column=ts)\<close>: the sub-columns of one super column, or
  \<open>NotFoundException\<close> when there are none.
\<close>

definition get_super :: "subcols column_family \<Rightarrow> string \<Rightarrow> int \<Rightarrow> py_error + subcols" where
  "get_super cfam key super_column =
     (case map_of (cfam key) super_column of
        None \<Rightarrow> Inl NotFoundException
      | Some sc \<Rightarrow> if sc = [] then Inl NotFoundException else Inr sc)"

text \<open>
  The calls the query interface makes on the store, and the inserts the persister hands
  to the batch of a column family.
\<close>

datatype store_call =
    MultigetCount cf_name "string list" int int
  | Multiget cf_name "string list" int int int bool

datatype store_write =
    RawInsert string int int "int option"
  | SuperInsert cf_name string int subcols

section \<open>Data containers\<close>

text \<open>
  \<open>RawRateData\<close> (and \<open>BaseRateBin\<close>, which adds \<open>is_valid\<close>), \<open>AggregationBin\<close> and
  \<open>Metadata\<close>. The field names carry a prefix because a record field is a constant of
  the theory. \<open>freq\<close> is optional as in the constructors. The persister builds an
  \<open>AggregationBin\<close> whose \<open>val\<close> is a number; the query interface builds one whose \<open>val\<close>
  may be \<open>None\<close>, so the type of \<open>val\<close> is a parameter.
\<close>

record raw_rate_data =
  rd_path :: "string list"
  rd_ts :: int
  rd_val :: int
  rd_freq :: "int option"

record base_rate_bin = raw_rate_data +
  rd_is_valid :: int

record 'v aggregation_bin =
  ab_path :: "string list"
  ab_ts :: int
  ab_val :: 'v
  ab_freq :: "int option"
  ab_base_freq :: "int option"
  ab_count :: "int option"
  ab_min :: "int option"
  ab_max :: "int option"
  ab_cf :: "string option"

record metadata =
  md_path :: "string list"
  md_last_update :: int
  md_last_val :: int
  md_min_ts :: int
  md_freq :: "int option"

text \<open>\<open>RawRateData.get_key\<close> and \<open>RawRateData.get_meta_key\<close>.\<close>

definition get_key :: "'a raw_rate_data_scheme \<Rightarrow> string" where
  "get_key d = get_rowkey (rd_path d) (rd_freq d) (Some (dt_year (rd_ts d)))"

definition get_meta_key :: "'a raw_rate_data_scheme \<Rightarrow> string" where
  "get_meta_key d = get_rowkey (rd_path d) (rd_freq d) None"

definition ab_get_key :: "'v aggregation_bin \<Rightarrow> string" where
  "ab_get_key a = get_rowkey (ab_path a) (ab_freq a) (Some (dt_year (ab_ts a)))"

text \<open>
  The constructor \<open>AggregationBin(...)\<close>: the \<open>ts\<close> argument goes through \<open>_handle_date\<close>,
  which raises for a timestamp outside the range of \<open>datetime\<close>.
\<close>

definition AggregationBin ::
  "string list \<Rightarrow> int \<Rightarrow> 'v \<Rightarrow> int option \<Rightarrow> int option \<Rightarrow> int option \<Rightarrow>
   int option \<Rightarrow> int option \<Rightarrow> string option \<Rightarrow> py_error + 'v aggregation_bin" where
  "AggregationBin p t v f bf c mn mx consolidation =
     (case utcfromtimestamp_ms t of
        Inl e \<Rightarrow> Inl e
      | Inr d \<Rightarrow> Inr \<lparr>ab_path = p, ab_ts = d, ab_val = v, ab_freq = f, ab_base_freq = bf,
                     ab_count = c, ab_min = mn, ab_max = mx, ab_cf = consolidation\<rparr>)"

text \<open>
  A Python float is an IEEE 754 double. A finite double is modelled by its value, a
  rational number (the two zeros, which compare equal, are one value); the infinities and
  NaN are values of their own. An operation computes the exact result and rounds it to
  the nearest double, a tie going to the even significand: the significand has 53 bits,
  the least exponent of its last bit is \<open>-1074\<close>, and a result that rounds to \<open>2^1024\<close> or
  more is an infinity.
\<close>

datatype double = Finite rat | PosInf | NegInf | NaN

definition pow2 :: "int \<Rightarrow> rat" where
  "pow2 e = (if 0 \<le> e then 2 ^ nat e else 1 / 2 ^ nat (- e))"

text \<open>The number of binary digits of a natural number.\<close>

function bits :: "nat \<Rightarrow> nat" where
  "bits n = (if n = 0 then 0 else Suc (bits (n div 2)))"
  by pat_completeness auto
termination by (relation "measure id") auto

declare bits.simps [simp del]

text \<open>The exponent of a positive rational \<open>q\<close>: the \<open>k\<close> with \<open>2^k \<le> q < 2^(k+1)\<close>.\<close>

definition ilog2 :: "rat \<Rightarrow> int" where
  "ilog2 q = (if 1 \<le> q then int (bits (nat \<lfloor>q\<rfloor>)) - 1
              else (let k = int (bits (nat \<lfloor>1 / q\<rfloor>))
                    in if q = pow2 (1 - k) then 1 - k else - k))"

definition round_half_even :: "rat \<Rightarrow> int" where
  "round_half_even x =
     (let f = \<lfloor>x\<rfloor>; r = x - of_int f
      in if r < 1 / 2 then f else if 1 / 2 < r then f + 1
         else if even f then f else f + 1)"

definition round_double :: "rat \<Rightarrow> double" where
  "round_double q =
     (if q = 0 then Finite 0
      else (let a = \<bar>q\<bar>;
                e = max (ilog2 a - 52) (- 1074);
                m = round_half_even (a / pow2 e);
                v = of_int m * pow2 e
            in if pow2 1024 \<le> v then (if 0 < q then PosInf else NegInf)
               else Finite (if 0 < q then v else - v)))"

text \<open>
  The conversion of an integer, by \<open>float(n)\<close> or as the integer operand of a float
  operation: \<open>OverflowError\<close> when the integer is too large for a double.
\<close>

definition float_of_int :: "int \<Rightarrow> py_error + double" where
  "float_of_int n = (case round_double (of_int n) of
                       Finite x \<Rightarrow> Inr (Finite x)
                     | _ \<Rightarrow> Inl OverflowError)"

definition float_neg :: "double \<Rightarrow> double" where
  "float_neg x = (case x of Finite a \<Rightarrow> Finite (- a) | PosInf \<Rightarrow> NegInf
                  | NegInf \<Rightarrow> PosInf | NaN \<Rightarrow> NaN)"

text \<open>The product \<open>x * y\<close> of two floats.\<close>

definition float_mul :: "double \<Rightarrow> double \<Rightarrow> double" where
  "float_mul x y =
     (case (x, y) of
        (Finite a, Finite b) \<Rightarrow> round_double (a * b)
      | (NaN, _) \<Rightarrow> NaN
      | (_, NaN) \<Rightarrow> NaN
      | (Finite a, _) \<Rightarrow> (if a = 0 then NaN else if 0 < a then y else float_neg y)
      | (_, Finite b) \<Rightarrow> (if b = 0 then NaN else if 0 < b then x else float_neg x)
      | _ \<Rightarrow> (if x = y then PosInf else NegInf))"

text \<open>The quotient \<open>x / y\<close> of two floats: Python raises when the divisor is zero.\<close>

definition float_div :: "double \<Rightarrow> double \<Rightarrow> py_error + double" where
  "float_div x y =
     (case y of
        Finite b \<Rightarrow>
          if b = 0 then Inl ZeroDivisionError
          else Inr (case x of
                      Finite a \<Rightarrow> round_double (a / b)
                    | NaN \<Rightarrow> NaN
                    | _ \<Rightarrow> (if 0 < b then x else float_neg x))
      | NaN \<Rightarrow> Inr NaN
      | _ \<Rightarrow> Inr (case x of Finite a \<Rightarrow> Finite 0 | _ \<Rightarrow> NaN))"

text \<open>A result value is \<open>None\<close>, an integer or a float.\<close>

datatype py_value = PyNone | PyInt int | PyFloat double

text \<open>
  \<open>AggregationBin.average\<close>: \<open>self.val / (self.count * (self.base_freq/1000.0))\<close>. The
  quotient by \<open>1000.0\<close> is evaluated first, then the product, then the quotient; each
  integer operand is converted when its operation is evaluated.
\<close>

definition average :: "int option aggregation_bin \<Rightarrow> py_error + double" where
  "average a =
     (case ab_base_freq a of
        None \<Rightarrow> Inl TypeError
      | Some bf \<Rightarrow>
     (case float_of_int bf of
        Inl e \<Rightarrow> Inl e
      | Inr x \<Rightarrow>
     (case float_div x (Finite 1000) of
        Inl e \<Rightarrow> Inl e
      | Inr y \<Rightarrow>
     (case ab_count a of
        None \<Rightarrow> Inl TypeError
      | Some c \<Rightarrow>
     (case float_of_int c of
        Inl e \<Rightarrow> Inl e
      | Inr z \<Rightarrow>
     (case ab_val a of
        None \<Rightarrow> Inl TypeError
      | Some v \<Rightarrow>
     (case float_of_int v of
        Inl e \<Rightarrow> Inl e
      | Inr w \<Rightarrow> float_div w (float_mul z y))))))))"

text \<open>\<open>str(x)\<close> for an optional integer.\<close>

definition str_opt :: "int option \<Rightarrow> string" where
  "str_opt x = (case x of None \<Rightarrow> ''None'' | Some n \<Rightarrow> str_int n)"

text \<open>
  \<open>int(s)\<close> for a string: surrounding white space is dropped, a sign may come first, the
  rest must be decimal digits.
\<close>

definition is_space :: "char \<Rightarrow> bool" where
  "is_space c = (c \<in> set [CHR '' '', CHR 0x09, CHR 0x0A, CHR 0x0B, CHR 0x0C, CHR 0x0D])"

definition strip :: "string \<Rightarrow> string" where
  "strip s = rev (dropWhile is_space (rev (dropWhile is_space s)))"

definition digit_val :: "char \<Rightarrow> nat option" where
  "digit_val c = map_of (zip ''0123456789'' [0, 1, 2, 3, 4, 5, 6, 7, 8, 9]) c"

fun digits_val :: "nat \<Rightarrow> string \<Rightarrow> nat option" where
  "digits_val acc [] = Some acc"
| "digits_val acc (c # cs) =
     (case digit_val c of None \<Rightarrow> None | Some d \<Rightarrow> digits_val (10 * acc + d) cs)"

definition int_of_str :: "string \<Rightarrow> py_error + int" where
  "int_of_str s =
     (let t = strip s;
          neg = (t \<noteq> [] \<and> hd t = CHR ''-'');
          ds = (if t \<noteq> [] \<and> (hd t = CHR ''-'' \<or> hd t = CHR ''+'') then tl t else t)
      in if ds = [] then Inl ValueError
         else case digits_val 0 ds of
                None \<Rightarrow> Inl ValueError
              | Some n \<Rightarrow> Inr (if neg then - int n else int n))"

text \<open>A loop that stops at the first exception.\<close>

fun map_result :: "('a \<Rightarrow> py_error + 'b) \<Rightarrow> 'a list \<Rightarrow> py_error + 'b list" where
  "map_result f [] = Inr []"
| "map_result f (x # xs) =
     (case f x of
        Inl e \<Rightarrow> Inl e
      | Inr y \<Rightarrow> (case map_result f xs of Inl e \<Rightarrow> Inl e | Inr ys \<Rightarrow> Inr (y # ys)))"

text \<open>\<open>d[k]\<close> on a dictionary of sub-columns.\<close>

definition subscript :: "subcols \<Rightarrow> string \<Rightarrow> py_error + int" where
  "subscript d k = (case map_of d k of None \<Rightarrow> Inl KeyError | Some v \<Rightarrow> Inr v)"

section \<open>The class \<open>CASSANDRA_DB\<close>\<close>

text \<open>
  The state of a \<open>CASSANDRA_DB\<close> object: the four column families as the store holds them
  (what a read sees), the inserts handed to the batches so far, the two caches and the
  warnings logged. A batched insert is not visible to a read before the batch is sent.
  The metadata cache holds the document of a \<open>Metadata\<close> object, which has the fields of
  the object. Debug log lines and the profiling counters are left out, and so are
  failures of the store on a read other than \<open>NotFoundException\<close>.
\<close>

record cassandra_db =
  raw_data :: "int column_family"
  rates :: "subcols column_family"
  aggs :: "subcols column_family"
  stat_agg :: "subcols column_family"
  batch :: "store_write list"
  metadata_cache :: "string \<rightharpoonup> metadata"
  aggregation_cache :: "string \<rightharpoonup> (int \<times> subcols) list"
  logged :: "string list"

text \<open>
  An insert may raise: the argument \<open>ins\<close> of the write operations is what the store does
  with the insert of this call, \<open>None\<close> when it accepts it and \<open>Some e\<close> when it raises \<open>e\<close>
  (\<open>MaximumRetryException\<close> once the retries of the connection pool are used up). Every
  operation returns its result, or the exception that leaves it, together with the
  state.
\<close>

definition set_raw_data ::
  "cassandra_db \<Rightarrow> 'a raw_rate_data_scheme \<Rightarrow> int option \<Rightarrow> py_error option \<Rightarrow>
   (py_error + unit) \<times> cassandra_db" where
  "set_raw_data db rd ttl ins =
     (let kw = (if truthy ttl then ttl else None) in
      case ins of
        Some e \<Rightarrow> (Inl e, db)
      | None \<Rightarrow>
          (Inr (), db\<lparr>batch := batch db @
             [RawInsert (get_key rd) (ts_to_jstime (rd_ts rd)) (rd_val rd) kw]\<rparr>))"

definition set_metadata :: "cassandra_db \<Rightarrow> string \<Rightarrow> metadata \<Rightarrow> cassandra_db" where
  "set_metadata db k meta_d = db\<lparr>metadata_cache := (metadata_cache db)(k \<mapsto> meta_d)\<rparr>"

text \<open>
  \<open>_get_row_keys\<close>: one key for every year from the year of \<open>ts_min\<close> to the year of
  \<open>ts_max\<close>. \<open>range(year_start, year_finish+1)\<close> is \<open>[year_start..year_finish]\<close>.
\<close>

definition get_row_keys ::
  "string list \<Rightarrow> int option \<Rightarrow> int \<Rightarrow> int \<Rightarrow> py_error + string list" where
  "get_row_keys p f ts_min ts_max =
     (case utcfromtimestamp_ms ts_min of
        Inl e \<Rightarrow> Inl e
      | Inr d_min \<Rightarrow>
     (case utcfromtimestamp_ms ts_max of
        Inl e \<Rightarrow> Inl e
      | Inr d_max \<Rightarrow>
          (let year_start = dt_year d_min; year_finish = dt_year d_max in
           Inr (if year_start \<noteq> year_finish
                then map (\<lambda>year. get_rowkey p f (Some year)) [year_start..year_finish]
                else [get_rowkey p f (Some year_start)]))))"

text \<open>
  \<open>get_metadata\<close>. \<open>ret.keys()[-1]\<close> is the last row of the result of \<open>multiget\<close> and
  \<open>ret[key].keys()[0]\<close> the first column of that row.
\<close>

definition get_metadata ::
  "cassandra_db \<Rightarrow> 'a raw_rate_data_scheme \<Rightarrow> (py_error + metadata) \<times> cassandra_db" where
  "get_metadata db rd =
     (case metadata_cache db (get_meta_key rd) of
        Some doc \<Rightarrow> (Inr doc, db)
      | None \<Rightarrow>
          (let ts_max = ts_to_jstime (rd_ts rd) - 1;
               ts_min = ts_max - SEEK_BACK_THRESHOLD
           in case get_row_keys (rd_path rd) (rd_freq rd) ts_min ts_max of
                Inl e \<Rightarrow> (Inl e, db)
              | Inr keys \<Rightarrow>
                  (let ret = multiget (raw_data db) keys ts_max ts_min 1 True in
                   if ret \<noteq> [] then
                     (case snd (last ret) of
                        [] \<Rightarrow> (Inl IndexError, db)
                      | (t, v) # _ \<Rightarrow>
                          (case utcfromtimestamp_ms t of
                             Inl e \<Rightarrow> (Inl e, db)
                           | Inr d \<Rightarrow>
                               (let meta_d = \<lparr>md_path = rd_path rd, md_last_update = d,
                                              md_last_val = v, md_min_ts = d,
                                              md_freq = rd_freq rd\<rparr>
                                in (Inr meta_d, set_metadata db (get_meta_key rd) meta_d))))
                   else
                     (let meta_d = \<lparr>md_path = rd_path rd, md_last_update = rd_ts rd,
                                    md_last_val = rd_val rd, md_min_ts = rd_ts rd,
                                    md_freq = rd_freq rd\<rparr>
                      in (Inr meta_d, set_metadata db (get_meta_key rd) meta_d)))))"

definition update_rate_bin ::
  "cassandra_db \<Rightarrow> 'a base_rate_bin_scheme \<Rightarrow> py_error option \<Rightarrow>
   (py_error + unit) \<times> cassandra_db" where
  "update_rate_bin db ratebin ins =
     (case ins of
        None \<Rightarrow>
          (Inr (), db\<lparr>batch := batch db @
             [SuperInsert RateCF (get_key ratebin) (ts_to_jstime (rd_ts ratebin))
                [(''val'', rd_val ratebin), (''is_valid'', rd_is_valid ratebin)]]\<rparr>)
      | Some e \<Rightarrow>
          if e = MaximumRetryException
          then (Inr (), db\<lparr>logged := logged db @
                  [''update_rate_bin failed. MaximumRetryException'']\<rparr>)
          else (Inl e, db))"

definition update_rate_aggregation ::
  "cassandra_db \<Rightarrow> 'a raw_rate_data_scheme \<Rightarrow> int \<Rightarrow> int option \<Rightarrow> py_error option \<Rightarrow>
   (py_error + unit) \<times> cassandra_db" where
  "update_rate_aggregation db rd agg_ts f ins =
     (case AggregationBin (rd_path rd) agg_ts (rd_val rd) f (rd_freq rd) (Some 1)
             (Some (rd_val rd)) (Some (rd_val rd)) None of
        Inl e \<Rightarrow> (Inl e, db)
      | Inr agg \<Rightarrow>
          (case ins of
             None \<Rightarrow>
               (Inr (), db\<lparr>batch := batch db @
                  [SuperInsert AggCF (ab_get_key agg) (ts_to_jstime (ab_ts agg))
                     [(''val'', ab_val agg), (str_opt (ab_base_freq agg), 1)]]\<rparr>)
           | Some e \<Rightarrow>
               if e = MaximumRetryException
               then (Inr (), db\<lparr>logged := logged db @
                       [''update_rate_aggregation failed. MaximumRetryException'']\<rparr>)
               else (Inl e, db)))"

text \<open>
  Truthiness of the result of \<open>dict.get(k, None)\<close>: \<open>None\<close> and the empty dictionary are
  false.
\<close>

fun truthy_dict :: "'a list option \<Rightarrow> bool" where
  "truthy_dict None = False"
| "truthy_dict (Some d) = (d \<noteq> [])"

text \<open>
  \<open>get_agg_from_cache\<close>. The cache is \<open>cache[row_key][timestamp_of_agg_bin]\<close>; the inner
  dictionaries are association lists.
\<close>

definition get_agg_from_cache ::
  "cassandra_db \<Rightarrow> int aggregation_bin \<Rightarrow> 'a raw_rate_data_scheme \<Rightarrow>
   subcols option \<times> cassandra_db" where
  "get_agg_from_cache db agg rd =
     (let key = ab_get_key agg;
          bin = ts_to_jstime (ab_ts agg);
          cache = aggregation_cache db;
          cache = (if \<not> truthy_dict (cache key)
                   then (case get_super (stat_agg db) key bin of
                           Inr lookup \<Rightarrow> cache(key \<mapsto> [(bin, lookup)])
                         | Inl e \<Rightarrow> cache(key \<mapsto> []))
                   else cache);
          entry = (case cache key of Some d \<Rightarrow> d | None \<Rightarrow> [])
      in if \<not> truthy_dict (map_of entry bin)
         then (None, db\<lparr>aggregation_cache := cache(key \<mapsto>
                 [(bin, [(''min'', ab_val agg), (''max'', ab_val agg),
                         (''min_ts'', ts_to_jstime (rd_ts rd)),
                         (''max_ts'', ts_to_jstime (rd_ts rd))])])\<rparr>)
         else (map_of entry bin, db\<lparr>aggregation_cache := cache\<rparr>))"

definition update_agg_cache ::
  "cassandra_db \<Rightarrow> int aggregation_bin \<Rightarrow> 'a raw_rate_data_scheme \<Rightarrow> string \<Rightarrow>
   (py_error + unit) \<times> cassandra_db" where
  "update_agg_cache db agg rd minmax =
     (if minmax \<notin> set [''min'', ''max''] then (Inl AssertionError, db)
      else case aggregation_cache db (ab_get_key agg) of
             None \<Rightarrow> (Inl KeyError, db)
           | Some entry \<Rightarrow>
               (case map_of entry (ts_to_jstime (ab_ts agg)) of
                  None \<Rightarrow> (Inl KeyError, db)
                | Some d \<Rightarrow>
                    (let d = AList.update minmax (ab_val agg) d;
                         d = AList.update (minmax @ ''_ts'') (ts_to_jstime (rd_ts rd)) d
                     in (Inr (), db\<lparr>aggregation_cache := (aggregation_cache db)
                           (ab_get_key agg \<mapsto>
                              AList.update (ts_to_jstime (ab_ts agg)) d entry)\<rparr>))))"

text \<open>
  The insert into the batch of \<open>stat_aggregations\<close>; it is not guarded by a \<open>try\<close>.
\<close>

definition stat_insert ::
  "cassandra_db \<Rightarrow> string \<Rightarrow> int \<Rightarrow> subcols \<Rightarrow> py_error option \<Rightarrow>
   (py_error + bool) \<times> cassandra_db" where
  "stat_insert db key col flds ins =
     (case ins of
        Some e \<Rightarrow> (Inl e, db)
      | None \<Rightarrow> (Inr True, db\<lparr>batch := batch db @ [SuperInsert StatCF key col flds]\<rparr>))"

definition update_stat_aggregation ::
  "cassandra_db \<Rightarrow> 'a raw_rate_data_scheme \<Rightarrow> int \<Rightarrow> int option \<Rightarrow> py_error option \<Rightarrow>
   (py_error + bool) \<times> cassandra_db" where
  "update_stat_aggregation db rd agg_ts f ins =
     (case AggregationBin (rd_path rd) agg_ts (rd_val rd) f (rd_freq rd) (Some 1)
             (Some (rd_val rd)) (Some (rd_val rd)) None of
        Inl e \<Rightarrow> (Inl e, db)
      | Inr agg \<Rightarrow>
          (let (ret, db) = get_agg_from_cache db agg rd;
               key = ab_get_key agg;
               bin = ts_to_jstime (ab_ts agg);
               jst = ts_to_jstime (rd_ts rd)
           in if \<not> truthy_dict ret then
                stat_insert db key bin
                  [(''min'', ab_val agg), (''max'', ab_val agg),
                   (''min_ts'', jst), (''max_ts'', jst)] ins
              else
                (let r = (case ret of Some d \<Rightarrow> d | None \<Rightarrow> []) in
                 case subscript r ''max'' of
                   Inl e \<Rightarrow> (Inl e, db)
                 | Inr mx \<Rightarrow>
                     if ab_val agg > mx then
                       (case update_agg_cache db agg rd ''max'' of
                          (Inl e, db) \<Rightarrow> (Inl e, db)
                        | (Inr _, db) \<Rightarrow>
                            stat_insert db key bin
                              [(''max'', ab_val agg), (''max_ts'', jst)] ins)
                     else
                       (case subscript r ''min'' of
                          Inl e \<Rightarrow> (Inl e, db)
                        | Inr mn \<Rightarrow>
                            if ab_val agg < mn then
                              (case update_agg_cache db agg rd ''min'' of
                                 (Inl e, db) \<Rightarrow> (Inl e, db)
                               | (Inr _, db) \<Rightarrow>
                                   stat_insert db key bin
                                     [(''min'', ab_val agg), (''min_ts'', jst)] ins)
                            else (Inr False, db)))))"

section \<open>The query interface\<close>

text \<open>
  The three time-range queries return the store calls they made, in order, and the list
  of results or the exception that leaves them. Calls to the logger are left out of the
  queries.

  When \<open>column_count\<close> is \<open>None\<close>, each of them first counts the columns of the range in
  every row and takes the sum plus 5 as the limit (the source repeats this code in every
  query).
\<close>

definition column_limit ::
  "cf_name \<Rightarrow> 'v column_family \<Rightarrow> string list \<Rightarrow> int \<Rightarrow> int \<Rightarrow> int option \<Rightarrow>
   store_call list \<times> int" where
  "column_limit name cfam keys ts_min ts_max column_count =
     (case column_count of
        Some cols \<Rightarrow> ([], cols)
      | None \<Rightarrow>
          (let ret_count = multiget_count cfam keys ts_min ts_max;
               cols = foldl (\<lambda>cols kv. cols + snd kv) 0 ret_count
           in ([MultigetCount name keys ts_min ts_max], cols + 5)))"

record rate_datum =
  bd_ts :: int
  bd_val :: double
  bd_is_valid :: int

text \<open>
  The body of the loop over the columns of the base rates:
  \<open>float(vv['val']) / value_divisors[cf]\<close>, then \<open>vv['is_valid']\<close>.
\<close>

definition baserate_datum :: "int \<Rightarrow> int \<times> subcols \<Rightarrow> py_error + rate_datum" where
  "baserate_datum divisor col =
     (let kk = fst col; vv = snd col in
      case subscript vv ''val'' of
        Inl e \<Rightarrow> Inl e
      | Inr v \<Rightarrow>
     (case float_of_int v of
        Inl e \<Rightarrow> Inl e
      | Inr x \<Rightarrow>
     (case float_of_int divisor of
        Inl e \<Rightarrow> Inl e
      | Inr y \<Rightarrow>
     (case float_div x y of
        Inl e \<Rightarrow> Inl e
      | Inr q \<Rightarrow>
     (case subscript vv ''is_valid'' of
        Inl e \<Rightarrow> Inl e
      | Inr iv \<Rightarrow> Inr \<lparr>bd_ts = kk, bd_val = q, bd_is_valid = iv\<rparr>)))))"

text \<open>
  \<open>query_baserate_timerange\<close>. \<open>int(freq/1000)\<close> is the integer quotient: the division of
  two integers rounds down.
\<close>

definition query_baserate_timerange ::
  "cassandra_db \<Rightarrow> string list \<Rightarrow> int option \<Rightarrow> int \<Rightarrow> int \<Rightarrow> string option \<Rightarrow> int option \<Rightarrow>
   store_call list \<times> (py_error + rate_datum list)" where
  "query_baserate_timerange db p f ts_min ts_max cf column_count =
     (case get_row_keys p f ts_min ts_max of
        Inl e \<Rightarrow> ([], Inl e)
      | Inr keys \<Rightarrow>
          (let (calls, cols) = column_limit RateCF (rates db) keys ts_min ts_max column_count;
               ret = multiget (rates db) keys ts_min ts_max cols False;
               calls = calls @ [Multiget RateCF keys ts_min ts_max cols False];
               cf = (if cf \<notin> set [Some ''average'', Some ''delta''] then Some ''average''
                     else cf);
               f = (case f of None \<Rightarrow> 1000 | Some n \<Rightarrow> n);
               divisor = (if cf = Some ''average'' then f div 1000 else 1)
           in (calls, map_result (baserate_datum divisor) (concat (map snd ret)))))"

definition AGG_TYPES :: "string list" where
  "AGG_TYPES = [''average'', ''min'', ''max'', ''raw'']"

text \<open>
  A result of \<open>query_aggregation_timerange\<close>: \<open>ts\<close>, \<open>val\<close> and \<open>cf\<close>, and for \<open>min\<close> and
  \<open>max\<close> also \<open>m_ts\<close>.
\<close>

datatype agg_result =
    AggDatum int py_value "string option"
  | StatDatum int py_value "string option" "int option"

text \<open>
  The body of the loop over the columns of \<open>rate_aggregations\<close>: \<open>val\<close> is the sub-column
  \<open>val\<close>; the name of any other sub-column is the base frequency and its value the count.
  The path of the bin built here is \<open>None\<close>, modelled by the empty path.
\<close>

definition agg_fields :: "subcols \<Rightarrow> int option \<times> string option \<times> int option" where
  "agg_fields vv =
     fold (\<lambda>kv (v, base_freq, cnt).
             if fst kv = ''val'' then (Some (snd kv), base_freq, cnt)
             else (v, Some (fst kv), Some (snd kv)))
       vv (None, None, None)"

definition agg_datum :: "string option \<Rightarrow> int \<times> subcols \<Rightarrow> py_error + agg_result" where
  "agg_datum cf col =
     (let ts = fst col; vv = snd col;
          (v, base_freq, cnt) = agg_fields vv
      in case base_freq of
           None \<Rightarrow> Inl TypeError
         | Some bfs \<Rightarrow>
        (case int_of_str bfs of
           Inl e \<Rightarrow> Inl e
         | Inr bf \<Rightarrow>
        (case AggregationBin [] ts v None (Some bf) cnt None None cf of
           Inl e \<Rightarrow> Inl e
         | Inr ab \<Rightarrow>
             if cf = Some ''average''
             then (case average ab of
                     Inl e \<Rightarrow> Inl e
                   | Inr a \<Rightarrow> Inr (AggDatum ts (PyFloat a) (ab_cf ab)))
             else Inr (AggDatum ts (case ab_val ab of None \<Rightarrow> PyNone | Some x \<Rightarrow> PyInt x)
                         (ab_cf ab)))))"

definition stat_datum :: "string option \<Rightarrow> int \<times> subcols \<Rightarrow> py_error + agg_result" where
  "stat_datum cf col =
     (let ts = fst col; vv = snd col in
      if cf = Some ''min''
      then (case subscript vv ''min'' of
              Inl e \<Rightarrow> Inl e
            | Inr v \<Rightarrow> Inr (StatDatum ts (PyInt v) cf (map_of vv ''min_ts'')))
      else (case subscript vv ''max'' of
              Inl e \<Rightarrow> Inl e
            | Inr v \<Rightarrow> Inr (StatDatum ts (PyInt v) cf (map_of vv ''max_ts''))))"

definition query_aggregation_timerange ::
  "cassandra_db \<Rightarrow> string list \<Rightarrow> int option \<Rightarrow> int \<Rightarrow> int \<Rightarrow> string option \<Rightarrow> int option \<Rightarrow>
   store_call list \<times> (py_error + agg_result list)" where
  "query_aggregation_timerange db p f ts_min ts_max cf column_count =
     (let cf = (if cf \<notin> set (map Some AGG_TYPES) then Some ''average'' else cf) in
      if cf = Some ''average'' \<or> cf = Some ''raw'' then
        (case get_row_keys p f ts_min ts_max of
           Inl e \<Rightarrow> ([], Inl e)
         | Inr keys \<Rightarrow>
             (let (calls, cols) = column_limit AggCF (aggs db) keys ts_min ts_max column_count;
                  ret = multiget (aggs db) keys ts_min ts_max cols False;
                  calls = calls @ [Multiget AggCF keys ts_min ts_max cols False]
              in (calls, map_result (agg_datum cf) (concat (map snd ret)))))
      else if cf = Some ''min'' \<or> cf = Some ''max'' then
        (case get_row_keys p f ts_min ts_max of
           Inl e \<Rightarrow> ([], Inl e)
         | Inr keys \<Rightarrow>
             (let (calls, cols) = column_limit StatCF (stat_agg db) keys ts_min ts_max
                                    column_count;
                  ret = multiget (stat_agg db) keys ts_min ts_max cols False;
                  calls = calls @ [Multiget StatCF keys ts_min ts_max cols False]
              in (calls, map_result (stat_datum cf) (concat (map snd ret)))))
      else ([], Inl UnboundLocalError))"

record raw_datum =
  wd_ts :: int
  wd_val :: int

definition query_raw_data ::
  "cassandra_db \<Rightarrow> string list \<Rightarrow> int option \<Rightarrow> int \<Rightarrow> int \<Rightarrow> int option \<Rightarrow>
   store_call list \<times> (py_error + raw_datum list)" where
  "query_raw_data db p f ts_min ts_max column_count =
     (case get_row_keys p f ts_min ts_max of
        Inl e \<Rightarrow> ([], Inl e)
      | Inr keys \<Rightarrow>
          (let (calls, cols) = column_limit RawCF (raw_data db) keys ts_min ts_max column_count;
               ret = multiget (raw_data db) keys ts_min ts_max cols False;
               calls = calls @ [Multiget RawCF keys ts_min ts_max cols False]
           in (calls, Inr (map (\<lambda>col. \<lparr>wd_ts = fst col, wd_val = snd col\<rparr>)
                            (concat (map snd ret))))))"

section \<open>Example data\<close>

text \<open>
  One series, \<open>r1/ifIn\<close>, polled every 30 seconds in August 2012, with one base rate, an
  hourly rate aggregation and a daily stat aggregation, as in the schema at the head of
  the module.
\<close>

definition ex_path :: "string list" where
  "ex_path = [''r1'', ''ifIn'']"

definition ex_db :: cassandra_db where
  "ex_db = \<lparr>raw_data = (\<lambda>k. if k = ''r1:ifIn:30000:2012''
                           then [(1343955600000, 100), (1343955630000, 130)] else []),
            rates = (\<lambda>k. if k = ''r1:ifIn:30000:2012''
                        then [(1343955600000, [(''is_valid'', 1), (''val'', 30000)])] else []),
            aggs = (\<lambda>k. if k = ''r1:ifIn:3600000:2012''
                       then [(1343955600000, [(''30000'', 38), (''val'', 1234)])] else []),
            stat_agg = (\<lambda>k. if k = ''r1:ifIn:86400000:2012''
                           then [(1343952000000,
                                  [(''max'', 484140), (''max_ts'', 1343955600000),
                                   (''min'', 0), (''min_ts'', 1343955630000)])] else []),
            batch = [], metadata_cache = Map.empty, aggregation_cache = Map.empty,
            logged = []\<rparr>"

text \<open>A sample of the series with value \<open>v\<close>, taken one minute into the hour.\<close>

definition ex_sample :: "int \<Rightarrow> raw_rate_data" where
  "ex_sample v = \<lparr>rd_path = ex_path, rd_ts = 1343955660000, rd_val = v, rd_freq = Some 30000\<rparr>"

text \<open>The daily aggregation bin of the series that starts at \<open>t\<close>, for a sample of value \<open>v\<close>.\<close>

definition ex_agg :: "int \<Rightarrow> int \<Rightarrow> int aggregation_bin" where
  "ex_agg t v = \<lparr>ab_path = ex_path, ab_ts = t, ab_val = v, ab_freq = Some 86400000,
                 ab_base_freq = Some 30000, ab_count = Some 1, ab_min = Some v,
                 ab_max = Some v, ab_cf = None\<rparr>"

section \<open>States of the aggregation cache\<close>

text \<open>
  The states a \<open>CASSANDRA_DB\<close> object can be in: the constructor leaves the aggregation
  cache empty; \<open>get_agg_from_cache\<close> and \<open>update_stat_aggregation\<close> (which calls
  \<open>update_agg_cache\<close>) are the only methods that write to it; everything else, and the
  store itself, may change the rest of the state.
\<close>

inductive reachable :: "cassandra_db \<Rightarrow> bool" where
  init: "aggregation_cache db = Map.empty \<Longrightarrow> reachable db"
| get: "reachable db \<Longrightarrow> reachable (snd (get_agg_from_cache db agg (rd :: raw_rate_data)))"
| update: "reachable db \<Longrightarrow>
     reachable (snd (update_stat_aggregation db (rd :: raw_rate_data) agg_ts f ins))"
| other: "reachable db \<Longrightarrow> aggregation_cache db' = aggregation_cache db \<Longrightarrow> reachable db'"

text \<open>Every row key of the aggregation cache holds at most one bin.\<close>

definition one_bin :: "cassandra_db \<Rightarrow> bool" where
  "one_bin db = (\<forall>k e. aggregation_cache db k = Some e \<longrightarrow> length e \<le> 1)"

section \<open>Properties of the Python primitives\<close>

lemma str_replace_char:
  "str_replace [d] new s = concat (map (\<lambda>c. if c = d then new else [c]) s)"
proof (induction s)
  case Nil
  show ?case by (simp add: str_replace.simps)
next
  case (Cons c cs)
  show ?case
    using Cons.IH by (subst str_replace.simps) simp
qed

lemma str_replace_del: "str_replace [e] [] s = filter (\<lambda>c. c \<noteq> e) s"
  by (induction s) (simp_all add: str_replace_char)

lemma scan_append:
  "scan e i pe (a @ b) = scan e i pe a @ scan e (i + length a) (fold (\<lambda>c _. c = e) a pe) b"
  by (induction a arbitrary: i pe) simp_all

lemma scan_shift: "scan e (i + k) pe s = map (\<lambda>j. j + k) (scan e i pe s)"
proof (induction s arbitrary: i pe)
  case Nil
  show ?case by simp
next
  case (Cons c cs)
  show ?case using Cons.IH[of "Suc i"] by simp
qed

lemma indices_scan_aux:
  "filter (\<lambda>i. [(pre @ cs) ! i] = KEY_DELIMITER \<and>
                 (if i > 0 \<and> [(pre @ cs) ! (i - 1)] \<noteq> [e] then True else i = 0))
       [length pre..<length pre + length cs]
   = scan e (length pre) (pre \<noteq> [] \<and> last pre = e) cs"
proof (induction cs arbitrary: pre)
  case Nil
  show ?case by simp
next
  case (Cons c cs)
  let ?s = "pre @ c # cs"
  let ?P = "\<lambda>i. [?s ! i] = KEY_DELIMITER \<and>
                 (if i > 0 \<and> [?s ! (i - 1)] \<noteq> [e] then True else i = 0)"
  let ?n = "length pre"
  have ih: "filter ?P [Suc ?n..<Suc ?n + length cs] = scan e (Suc ?n) (c = e) cs"
    using Cons.IH[of "pre @ [c]"] by simp
  have upt: "[?n..<?n + length (c # cs)] = ?n # [Suc ?n..<Suc ?n + length cs]"
    by (subst upt_rec) simp
  have prev: "pre \<noteq> [] \<Longrightarrow> ?s ! (?n - 1) = last pre"
    by (simp add: nth_append last_conv_nth)
  have P0: "?P ?n \<longleftrightarrow> (c = CHR '':'' \<and> \<not> (pre \<noteq> [] \<and> last pre = e))"
    using prev by (cases "pre = []") (auto simp: KEY_DELIMITER_def)
  have "filter ?P [?n..<?n + length (c # cs)] = (if ?P ?n then [?n] else []) @ filter ?P [Suc ?n..<Suc ?n + length cs]"
    by (simp only: upt filter.simps) simp
  also have "\<dots> = scan e ?n (pre \<noteq> [] \<and> last pre = e) (c # cs)"
    by (simp only: ih P0 scan.simps)
  finally show ?case .
qed

lemma split_indices_scan: "split_indices s [e] = scan e 0 False s"
  using indices_scan_aux[of "[]" s e] by (simp add: split_indices_def)

lemma split_loop_out: "split_loop s esc is lst out = out @ split_loop s esc is lst []"
proof (induction "is" arbitrary: lst out)
  case Nil
  show ?case by simp
next
  case (Cons i "is")
  show ?case
    using Cons.IH[of "i + 1" "out @ [str_replace esc [] (slice s lst i)]"]
          Cons.IH[of "i + 1" "[str_replace esc [] (slice s lst i)]"]
    by simp
qed

lemma split_loop_shift:
  "split_loop (pre @ rest) esc (map (\<lambda>j. j + length pre) is) (lst + length pre) out
     = split_loop rest esc is lst out"
proof (induction "is" arbitrary: lst out)
  case Nil
  show ?case by simp
next
  case (Cons i "is")
  have "slice (pre @ rest) (lst + length pre) (i + length pre) = slice rest lst i"
    by (simp add: slice_def)
  then show ?case using Cons.IH[of "i + 1"] by simp
qed

lemma split_rowkey_single:
  "scan e 0 False seg = [] \<Longrightarrow> split_rowkey seg [e] = [seg]"
  by (simp add: split_rowkey_def split_indices_scan)

lemma split_rowkey_cons:
  assumes "scan e 0 False seg = []" and "fold (\<lambda>c _. c = e) seg False = False"
    and "e \<noteq> CHR '':''"
  shows "split_rowkey (seg @ KEY_DELIMITER @ rest) [e]
           = str_replace [e] [] seg # split_rowkey rest [e]"
proof -
  let ?pre = "seg @ KEY_DELIMITER"
  let ?s = "seg @ KEY_DELIMITER @ rest"
  let ?is = "split_indices rest [e]"
  let ?x = "str_replace [e] [] seg"
  have len: "length ?pre = Suc (length seg)" by (simp add: KEY_DELIMITER_def)
  have s: "?s = ?pre @ rest" by simp
  have "scan e 0 False ?s = scan e (length seg) False (CHR '':'' # rest)"
    using assms(1,2) scan_append[of e 0 False seg "CHR '':'' # rest"]
    by (simp add: KEY_DELIMITER_def)
  also have "\<dots> = length seg # scan e (0 + Suc (length seg)) False rest"
    using assms(3) by simp
  also have "\<dots> = length seg # map (\<lambda>j. j + Suc (length seg)) (scan e 0 False rest)"
    by (simp only: scan_shift)
  finally have idx: "split_indices ?s [e] = length seg # map (\<lambda>j. j + length ?pre) ?is"
    by (simp only: split_indices_scan len)
  have sl: "slice ?s 0 (length seg) = seg" by (simp add: slice_def)
  have "split_rowkey ?s [e] = split_loop ?s [e] (length seg # map (\<lambda>j. j + length ?pre) ?is) 0 []"
    by (simp only: split_rowkey_def idx)
  also have "\<dots> = split_loop ?s [e] (map (\<lambda>j. j + length ?pre) ?is) (length seg + 1) [?x]"
    by (simp only: split_loop.simps sl append_Nil)
  also have "\<dots> = split_loop (?pre @ rest) [e] (map (\<lambda>j. j + length ?pre) ?is) (0 + length ?pre) [?x]"
    by (simp only: s len) simp
  also have "\<dots> = split_loop rest [e] ?is 0 [?x]"
    by (rule split_loop_shift)
  also have "\<dots> = ?x # split_rowkey rest [e]"
    using split_loop_out[of rest "[e]" ?is 0 "[?x]"]
    by (simp add: split_rowkey_def)
  finally show ?thesis .
qed

lemma scan_plain: "CHR '':'' \<notin> set s \<Longrightarrow> scan e i pe s = []"
  by (induction s arbitrary: i pe) auto

lemma fold_plain: "e \<notin> set s \<Longrightarrow> fold (\<lambda>c _. c = e) s False = False"
  by (induction s rule: rev_induct) auto

lemma escape_plain:
  "d \<notin> set s \<Longrightarrow> str_replace [d] new s = s"
  by (induction s) (auto simp: str_replace_char)

lemma scan_escaped:
  "e \<notin> set step \<Longrightarrow> e \<noteq> CHR '':'' \<Longrightarrow>
     scan e i False (str_replace '':'' [e, CHR '':''] step) = []"
  by (induction step arbitrary: i) (auto simp: str_replace_char)

lemma fold_escaped:
  "e \<notin> set step \<Longrightarrow> e \<noteq> CHR '':'' \<Longrightarrow>
     fold (\<lambda>c _. c = e) (str_replace '':'' [e, CHR '':''] step) False = False"
  by (induction step rule: rev_induct) (auto simp: str_replace_char)

lemma unescape_escaped:
  "e \<notin> set step \<Longrightarrow> e \<noteq> CHR '':'' \<Longrightarrow>
     str_replace [e] [] (str_replace '':'' [e, CHR '':''] step) = step"
  by (induction step) (auto simp: str_replace_char)

lemma digit_char_plain: "n < 10 \<Longrightarrow> digit_char n \<noteq> CHR '':'' \<and> digit_char n \<noteq> CHR 0x5C"
proof -
  assume "n < 10"
  then have "n \<in> {0, 1, 2, 3, 4, 5, 6, 7, 8, 9}" by auto
  then show ?thesis by (auto simp: digit_char_def)
qed

lemma str_nat_plain: "CHR '':'' \<notin> set (str_nat n) \<and> CHR 0x5C \<notin> set (str_nat n)"
proof (induction n rule: str_nat.induct)
  case (1 n)
  show ?case
  proof (cases "n < 10")
    case True
    then have "str_nat n = [digit_char n]" by (subst str_nat.simps) simp
    then show ?thesis using True digit_char_plain[of n] by auto
  next
    case False
    then have "str_nat n = str_nat (n div 10) @ [digit_char (n mod 10)]"
      by (subst str_nat.simps) simp
    moreover have "n mod 10 < 10" by simp
    ultimately show ?thesis using 1 False digit_char_plain[of "n mod 10"] by auto
  qed
qed

lemma str_int_plain: "CHR '':'' \<notin> set (str_int n) \<and> CHR 0x5C \<notin> set (str_int n)"
  using str_nat_plain by (simp add: str_int_def)

lemma escape_step_eq:
  "str_replace KEY_DELIMITER (BACKSLASH @ KEY_DELIMITER) step
     = str_replace '':'' [CHR 0x5C, CHR '':''] step"
  by (simp add: KEY_DELIMITER_def BACKSLASH_def)

lemma join_Cons: "rest \<noteq> [] \<Longrightarrow> join sep (x # rest) = x @ sep @ join sep rest"
  by (cases rest) simp_all

lemma split_join:
  assumes "\<forall>s \<in> set steps. CHR 0x5C \<notin> set s" and "CHR '':'' \<notin> set l"
  shows "split_rowkey (join KEY_DELIMITER (escape_path steps @ [l])) BACKSLASH = steps @ [l]"
  using assms(1)
proof (induction steps)
  case Nil
  show ?case using assms(2)
    by (simp add: escape_path_def BACKSLASH_def split_rowkey_single scan_plain)
next
  case (Cons s ss)
  let ?e = "CHR 0x5C"
  let ?seg = "str_replace '':'' [?e, CHR '':''] s"
  from Cons.prems have s: "?e \<notin> set s" and ss: "\<forall>s \<in> set ss. ?e \<notin> set s" by simp_all
  have ne: "escape_path ss @ [l] \<noteq> []" by simp
  have "join KEY_DELIMITER (escape_path (s # ss) @ [l])
          = ?seg @ KEY_DELIMITER @ join KEY_DELIMITER (escape_path ss @ [l])"
    using join_Cons[OF ne, of KEY_DELIMITER ?seg] by (simp add: escape_path_def escape_step_eq)
  moreover have "split_rowkey (?seg @ KEY_DELIMITER @ join KEY_DELIMITER (escape_path ss @ [l])) [?e]
          = str_replace [?e] [] ?seg # split_rowkey (join KEY_DELIMITER (escape_path ss @ [l])) [?e]"
    by (rule split_rowkey_cons) (simp_all add: scan_escaped fold_escaped s)
  moreover have "str_replace [?e] [] ?seg = s"
    by (rule unescape_escaped) (simp_all add: s)
  ultimately show ?case using Cons.IH[OF ss] by (simp add: BACKSLASH_def)
qed


section \<open>Evaluation of the example\<close>

lemma str_int_30000: "str_int 30000 = ''30000''"
  by (simp add: str_int_def str_nat.simps digit_char_def)

lemma str_int_2012: "str_int 2012 = ''2012''"
  by (simp add: str_int_def str_nat.simps digit_char_def)

lemma str_int_3600000: "str_int 3600000 = ''3600000''"
  by (simp add: str_int_def str_nat.simps digit_char_def)

lemma str_int_86400000: "str_int 86400000 = ''86400000''"
  by (simp add: str_int_def str_nat.simps digit_char_def)

lemma dt_year_ex:
  "dt_year 1343955600000 = 2012" "dt_year 1343955630000 = 2012"
  "dt_year 1343952000000 = 2012"
  by (simp_all add: dt_year_def ord_to_year_def Let_def)

lemma ex_keys:
  "get_rowkey ex_path (Some 30000) (Some 2012) = ''r1:ifIn:30000:2012''"
  "get_rowkey ex_path (Some 3600000) (Some 2012) = ''r1:ifIn:3600000:2012''"
  "get_rowkey ex_path (Some 86400000) (Some 2012) = ''r1:ifIn:86400000:2012''"
  by (simp_all add: get_rowkey_def escape_path_def ex_path_def KEY_DELIMITER_def BACKSLASH_def
        str_replace_char str_int_30000 str_int_2012 str_int_3600000 str_int_86400000)

section \<open>Printing and parsing integers\<close>

lemma digit_char_cases:
  assumes "d < 10"
  shows "(d::nat) \<in> {0, 1, 2, 3, 4, 5, 6, 7, 8, 9}"
  using assms by auto

lemma digit_val_digit_char: "d < 10 \<Longrightarrow> digit_val (digit_char d) = Some d"
  using digit_char_cases[of d] by (auto simp: digit_val_def digit_char_def)

lemma digit_char_not_space:
  "d < 10 \<Longrightarrow> \<not> is_space (digit_char d) \<and> digit_char d \<noteq> CHR ''-'' \<and> digit_char d \<noteq> CHR ''+''"
  using digit_char_cases[of d] by (auto simp: is_space_def digit_char_def)

lemma digits_val_append:
  "digits_val acc (xs @ ys) = (case digits_val acc xs of None \<Rightarrow> None | Some m \<Rightarrow> digits_val m ys)"
  by (induction xs arbitrary: acc) (auto split: option.splits)

lemma str_nat_small: "n < 10 \<Longrightarrow> str_nat n = [digit_char n]"
  by (subst str_nat.simps) simp

lemma str_nat_big: "\<not> n < 10 \<Longrightarrow> str_nat n = str_nat (n div 10) @ [digit_char (n mod 10)]"
  by (subst str_nat.simps) simp

lemma digits_val_str_nat: "digits_val 0 (str_nat n) = Some n"
proof (induction n rule: str_nat.induct)
  case (1 n)
  show ?case
  proof (cases "n < 10")
    case True
    then show ?thesis by (simp add: str_nat_small digit_val_digit_char)
  next
    case False
    have "n mod 10 < 10" by simp
    then have "digit_val (digit_char (n mod 10)) = Some (n mod 10)" by (rule digit_val_digit_char)
    then show ?thesis using 1[OF False]
      by (simp add: str_nat_big[OF False] digits_val_append)
  qed
qed

lemma str_nat_nonempty: "str_nat n \<noteq> []"
  by (cases "n < 10") (simp_all add: str_nat_small str_nat_big)

lemma str_nat_last: "\<not> is_space (last (str_nat n))"
proof (cases "n < 10")
  case True
  then show ?thesis using digit_char_not_space[of n] by (simp add: str_nat_small)
next
  case False
  have "n mod 10 < 10" by simp
  then show ?thesis using digit_char_not_space[of "n mod 10"] by (simp add: str_nat_big[OF False])
qed

lemma str_nat_hd:
  "\<not> is_space (hd (str_nat n)) \<and> hd (str_nat n) \<noteq> CHR ''-'' \<and> hd (str_nat n) \<noteq> CHR ''+''"
proof (induction n rule: str_nat.induct)
  case (1 n)
  show ?case
  proof (cases "n < 10")
    case True
    then show ?thesis using digit_char_not_space[of n] by (simp add: str_nat_small)
  next
    case False
    then show ?thesis using 1[OF False] str_nat_nonempty[of "n div 10"]
      by (simp add: str_nat_big[OF False])
  qed
qed

lemma dropWhile_hd: "xs \<noteq> [] \<Longrightarrow> \<not> P (hd xs) \<Longrightarrow> dropWhile P xs = xs"
  by (cases xs) simp_all

lemma strip_id:
  assumes "s \<noteq> []" "\<not> is_space (hd s)" "\<not> is_space (last s)"
  shows "strip s = s"
proof -
  have a: "dropWhile is_space s = s" using assms(1,2) by (rule dropWhile_hd)
  have "rev s \<noteq> []" "\<not> is_space (hd (rev s))" using assms(1,3) by (simp_all add: hd_rev)
  then have "dropWhile is_space (rev s) = rev s" by (rule dropWhile_hd)
  then show ?thesis by (simp add: strip_def a)
qed

lemma int_of_str_nonneg:
  assumes "s \<noteq> []" "\<not> is_space (hd s)" "\<not> is_space (last s)"
    "hd s \<noteq> CHR ''-''" "hd s \<noteq> CHR ''+''" "digits_val 0 s = Some m"
  shows "int_of_str s = Inr (int m)"
proof -
  have st: "strip s = s" using assms(1,2,3) by (rule strip_id)
  show ?thesis unfolding int_of_str_def st Let_def using assms(1,4,5,6) by simp
qed

lemma int_of_str_neg:
  assumes "s \<noteq> []" "\<not> is_space (last s)" "digits_val 0 s = Some m"
  shows "int_of_str (CHR ''-'' # s) = Inr (- int m)"
proof -
  have "\<not> is_space (CHR ''-'')" by (simp add: is_space_def)
  then have st: "strip (CHR ''-'' # s) = CHR ''-'' # s"
    using assms(1,2) by (intro strip_id) simp_all
  show ?thesis unfolding int_of_str_def st Let_def using assms(1,3) by simp
qed

lemma map_result_map:
  "(\<forall>x \<in> set xs. f x = Inr (g x)) \<Longrightarrow> map_result f xs = Inr (map g xs)"
  by (induction xs) simp_all

lemma int_of_str_str_int: "int_of_str (str_int n) = Inr n"
proof (cases "n < 0")
  case True
  have "int_of_str (CHR ''-'' # str_nat (nat (- n))) = Inr (- int (nat (- n)))"
    by (rule int_of_str_neg[OF str_nat_nonempty str_nat_last digits_val_str_nat])
  then show ?thesis using True by (simp add: str_int_def)
next
  case False
  have h: "\<not> is_space (hd (str_nat (nat n)))" "hd (str_nat (nat n)) \<noteq> CHR ''-''"
    "hd (str_nat (nat n)) \<noteq> CHR ''+''"
    using str_nat_hd[of "nat n"] by simp_all
  have "int_of_str (str_nat (nat n)) = Inr (int (nat n))"
    by (rule int_of_str_nonneg[OF str_nat_nonempty h(1) str_nat_last h(2) h(3) digits_val_str_nat])
  then show ?thesis using False by (simp add: str_int_def)
qed

lemma str_int_inject:
  assumes "str_int m = str_int n"
  shows "m = n"
proof -
  have "(Inr m :: py_error + int) = int_of_str (str_int m)" by (simp only: int_of_str_str_int)
  also have "\<dots> = int_of_str (str_int n)" by (simp only: assms)
  also have "\<dots> = Inr n" by (simp only: int_of_str_str_int)
  finally show ?thesis by simp
qed

section \<open>Claim C1: the row-key codec\<close>

text \<open>
  C1. Decoding an encoded row key gives back the steps of the path followed by the
  decimal \<open>freq\<close> and \<open>year\<close>, also when a step contains the delimiter \<open>:\<close>: the first
  segments are the path and \<open>int\<close> of the last two segments gives \<open>freq\<close> and \<open>year\<close>. This
  holds when no step contains a backslash and \<open>freq\<close> and \<open>year\<close> are not zero (a zero is
  not appended to the key). The encoder replaces \<open>:\<close> by a backslash and \<open>:\<close> in every
  step and joins the steps, \<open>freq\<close> and \<open>year\<close> with \<open>:\<close>.
\<close>

theorem rowkey_roundtrip:
  assumes "\<forall>step \<in> set path. CHR 0x5C \<notin> set step" and "freq \<noteq> 0" and "year \<noteq> 0"
  shows "split_rowkey (get_rowkey path (Some freq) (Some year)) BACKSLASH
           = path @ [str_int freq, str_int year]
       \<and> take (length path) (split_rowkey (get_rowkey path (Some freq) (Some year)) BACKSLASH)
           = path
       \<and> map int_of_str
            (drop (length path) (split_rowkey (get_rowkey path (Some freq) (Some year)) BACKSLASH))
           = [Inr freq, Inr year]"
proof -
  have plain: "str_replace KEY_DELIMITER (BACKSLASH @ KEY_DELIMITER) (str_int freq) = str_int freq"
    using str_int_plain[of freq] by (simp add: KEY_DELIMITER_def escape_plain)
  have "get_rowkey path (Some freq) (Some year)
          = join KEY_DELIMITER (escape_path (path @ [str_int freq]) @ [str_int year])"
    using assms(2,3) by (simp add: get_rowkey_def escape_path_def plain)
  moreover have "\<forall>s \<in> set (path @ [str_int freq]). CHR 0x5C \<notin> set s"
    using assms(1) str_int_plain[of freq] by auto
  ultimately have "split_rowkey (get_rowkey path (Some freq) (Some year)) BACKSLASH
           = path @ [str_int freq, str_int year]"
    using split_join[of "path @ [str_int freq]" "str_int year"] str_int_plain[of year] by simp
  then show ?thesis by (simp add: int_of_str_str_int)
qed

theorem rowkey_roundtrip_witness:
  "split_rowkey (get_rowkey [''router:a'', ''xe-0/2/0''] (Some 30000) (Some 2012)) BACKSLASH
     = [''router:a'', ''xe-0/2/0'', ''30000'', ''2012'']
   \<and> map int_of_str
        (drop 2 (split_rowkey (get_rowkey [''router:a'', ''xe-0/2/0''] (Some 30000) (Some 2012))
                   BACKSLASH))
     = [Inr 30000, Inr 2012]"
proof -
  have h: "\<forall>step \<in> set [''router:a'', ''xe-0/2/0'']. CHR 0x5C \<notin> set step"
    "(30000 :: int) \<noteq> 0" "(2012 :: int) \<noteq> 0"
    by simp_all
  note r = rowkey_roundtrip[OF h]
  have c1: "split_rowkey (get_rowkey [''router:a'', ''xe-0/2/0''] (Some 30000) (Some 2012))
              BACKSLASH
            = [''router:a'', ''xe-0/2/0'', ''30000'', ''2012'']"
    using r[THEN conjunct1] by (simp add: str_int_30000 str_int_2012)
  have c2: "map int_of_str
        (drop 2 (split_rowkey (get_rowkey [''router:a'', ''xe-0/2/0''] (Some 30000) (Some 2012))
                   BACKSLASH))
     = [Inr 30000, Inr 2012]"
    using r[THEN conjunct2, THEN conjunct2] by (simp add: numeral_2_eq_2)
  from c1 c2 show ?thesis by (rule conjI)
qed

text \<open>
  A backslash in a step is not escaped by the encoder and is removed by the decoder: the
  path with the single step \<open>a\b\<close> comes back as \<open>ab\<close>.
\<close>

lemma rowkey_backslash_lost:
  "split_rowkey (get_rowkey [[CHR ''a'', CHR 0x5C, CHR ''b'']] (Some 30000) (Some 2012)) BACKSLASH
     = [''ab'', ''30000'', ''2012'']"
  by (simp add: get_rowkey_def escape_path_def str_int_30000 str_int_2012 KEY_DELIMITER_def
        BACKSLASH_def str_replace_char split_rowkey_def split_indices_scan str_replace_del slice_def)

theorem rowkey_roundtrip_counterexample:
  "split_rowkey (get_rowkey [[CHR ''a'', CHR 0x5C, CHR ''b'']] (Some 30000) (Some 2012)) BACKSLASH
     \<noteq> [[CHR ''a'', CHR 0x5C, CHR ''b''], str_int 30000, str_int 2012]"
  by (simp add: rowkey_backslash_lost)

section \<open>Floating-point arithmetic\<close>

lemma floor_rat_numeral:
  "\<lfloor>numeral a / numeral b :: rat\<rfloor> = numeral a div numeral b"
  using floor_divide_of_int_eq [where ?'a = rat, of "numeral a" "numeral b"] by simp

lemma bits_0: "bits 0 = 0"
  by (simp add: bits.simps)

lemma bits_pos: "0 < n \<Longrightarrow> bits n = Suc (bits (n div 2))"
  by (subst bits.simps) simp

lemma bits_num: "bits (numeral k) = Suc (bits (numeral k div 2))"
  by (rule bits_pos) simp

lemma bits_1: "bits (Suc 0) = 1"
  by (simp add: bits_pos bits_0)

lemma pow2_powi: "pow2 e = 2 powi e"
  by (simp add: pow2_def power_int_def inverse_eq_divide power_one_over)

lemma pow2_pos: "0 < pow2 e"
  by (simp add: pow2_def)

lemma pow2_add: "pow2 (a + b) = pow2 a * pow2 b"
  by (simp add: pow2_powi power_int_add)

lemma pow2_mono: "a \<le> b \<Longrightarrow> pow2 a \<le> pow2 b"
  by (simp add: pow2_powi power_int_increasing)

lemma pow2_nat: "pow2 (int k) = 2 ^ k"
  by (simp add: pow2_def)

lemma pow2_neg: "pow2 (- e) = 1 / pow2 e"
  by (simp add: pow2_powi power_int_minus inverse_eq_divide)

lemma bits_bounds: "0 < n \<Longrightarrow> 2 ^ (bits n - 1) \<le> n \<and> n < 2 ^ bits n"
proof (induction n rule: less_induct)
  case (less n)
  show ?case
  proof (cases "n div 2 = 0")
    case True
    with less.prems have "n = 1" by (simp add: div_eq_0_iff) 
    then show ?thesis by (simp add: bits_1)
  next
    case False
    then have p: "0 < n div 2" by simp
    have lt: "n div 2 < n" using less.prems by simp
    from less.IH[OF lt p] have lo: "2 ^ (bits (n div 2) - 1) \<le> n div 2"
      and hi: "n div 2 < 2 ^ bits (n div 2)" by simp_all
    have b: "bits n = Suc (bits (n div 2))" using less.prems by (rule bits_pos)
    have bp: "0 < bits (n div 2)" using p by (simp add: bits_pos)
    then have "(2::nat) ^ bits (n div 2) = 2 * 2 ^ (bits (n div 2) - 1)"
      by (cases "bits (n div 2)") simp_all
    with lo have l: "2 ^ bits (n div 2) \<le> n" by simp
    from hi have "n < 2 * 2 ^ bits (n div 2)" by simp
    with l b show ?thesis by simp
  qed
qed

lemma bits_gt0: "0 < n \<Longrightarrow> 0 < bits n"
  by (simp add: bits_pos)

text \<open>The floor of the binary logarithm, from below.\<close>

lemma ilog2_lower:
  assumes "0 < q"
  shows "pow2 (ilog2 q) \<le> q"
proof (cases "1 \<le> q")
  case True
  define n where "n = nat \<lfloor>q\<rfloor>"
  from True have fl: "1 \<le> \<lfloor>q\<rfloor>" by simp
  then have n: "0 < n" by (simp add: n_def)
  from bits_bounds[OF n] have "2 ^ (bits n - 1) \<le> n" by simp
  then have "(of_nat (2 ^ (bits n - 1)) :: rat) \<le> of_nat n" by (simp only: of_nat_le_iff)
  then have "(2 :: rat) ^ (bits n - 1) \<le> of_nat n" by simp
  also have "(of_nat n :: rat) = of_int \<lfloor>q\<rfloor>" using fl by (simp add: n_def)
  also have "\<dots> \<le> q" by simp
  finally have "(2 :: rat) ^ (bits n - 1) \<le> q" .
  moreover have "ilog2 q = int (bits n - 1)"
    using True bits_gt0[OF n] by (simp add: ilog2_def n_def)
  ultimately show ?thesis by (simp add: pow2_nat)
next
  case False
  define n where "n = nat \<lfloor>1 / q\<rfloor>"
  define k where "k = int (bits n)"
  from False assms have "1 < 1 / q" by simp
  then have fl: "1 \<le> \<lfloor>1 / q\<rfloor>" by simp
  then have n: "0 < n" by (simp add: n_def)
  have il: "ilog2 q = (if q = pow2 (1 - k) then 1 - k else - k)"
    using False by (simp add: ilog2_def n_def k_def Let_def)
  show ?thesis
  proof (cases "q = pow2 (1 - k)")
    case True
    with il show ?thesis by simp
  next
    case ne: False
    from bits_bounds[OF n] have "n < 2 ^ bits n" by simp
    then have "Suc n \<le> 2 ^ bits n" by simp
    then have "(of_nat (Suc n) :: rat) \<le> of_nat (2 ^ bits n)" by (simp only: of_nat_le_iff)
    then have le: "(of_nat n :: rat) + 1 \<le> 2 ^ bits n" by simp
    have "1 / q < of_int \<lfloor>1 / q\<rfloor> + 1" by linarith
    also have "(of_int \<lfloor>1 / q\<rfloor> :: rat) = of_nat n"
    proof -
      from fl have "0 \<le> \<lfloor>1 / q\<rfloor>" by linarith
      then show ?thesis unfolding n_def by (rule of_nat_nat [symmetric])
    qed
    finally have "1 / q < 2 ^ bits n" using le by simp
    then have "1 < 2 ^ bits n * q" using assms by (simp add: field_simps)
    then have "1 / 2 ^ bits n < q" by (simp add: field_simps)
    moreover have "pow2 (- k) = 1 / 2 ^ bits n"
      by (simp add: pow2_neg k_def pow2_nat)
    ultimately show ?thesis using il ne by simp
  qed
qed

lemma ilog2_upper:
  assumes "0 < q"
  shows "q < pow2 (ilog2 q + 1)"
proof (cases "1 \<le> q")
  case True
  define n where "n = nat \<lfloor>q\<rfloor>"
  from True have fl: "1 \<le> \<lfloor>q\<rfloor>" by simp
  then have n: "0 < n" by (simp add: n_def)
  have nq: "(of_nat n :: rat) = of_int \<lfloor>q\<rfloor>"
  proof -
    from fl have "0 \<le> \<lfloor>q\<rfloor>" by linarith
    then show ?thesis unfolding n_def by (rule of_nat_nat)
  qed
  from bits_bounds[OF n] have "n < 2 ^ bits n" by simp
  then have "Suc n \<le> 2 ^ bits n" by simp
  then have "(of_nat (Suc n) :: rat) \<le> of_nat (2 ^ bits n)" by (simp only: of_nat_le_iff)
  then have le: "(of_nat n :: rat) + 1 \<le> 2 ^ bits n" by simp
  have "q < of_int \<lfloor>q\<rfloor> + 1" by linarith
  with nq le have "q < 2 ^ bits n" by simp
  moreover have "ilog2 q + 1 = int (bits n)"
    using True by (simp add: ilog2_def n_def)
  ultimately show ?thesis by (simp add: pow2_nat)
next
  case False
  define n where "n = nat \<lfloor>1 / q\<rfloor>"
  define k where "k = int (bits n)"
  from False assms have "1 < 1 / q" by simp
  then have fl: "1 \<le> \<lfloor>1 / q\<rfloor>" by simp
  then have n: "0 < n" by (simp add: n_def)
  have nq: "(of_nat n :: rat) = of_int \<lfloor>1 / q\<rfloor>"
  proof -
    from fl have "0 \<le> \<lfloor>1 / q\<rfloor>" by linarith
    then show ?thesis unfolding n_def by (rule of_nat_nat)
  qed
  have il: "ilog2 q = (if q = pow2 (1 - k) then 1 - k else - k)"
    using False by (simp add: ilog2_def n_def k_def Let_def)
  have kp: "0 < bits n" using n by (rule bits_gt0)
  have p: "pow2 (1 - k) = 1 / 2 ^ (bits n - 1)"
  proof -
    have "1 - k = - int (bits n - 1)" using kp by (simp add: k_def)
    then show ?thesis by (simp add: pow2_neg pow2_nat)
  qed
  show ?thesis
  proof (cases "q = pow2 (1 - k)")
    case True
    have "pow2 (1 - k + 1) = pow2 (1 - k) * pow2 1" by (rule pow2_add)
    also have "\<dots> = 2 * q" using True by (simp add: pow2_def)
    finally show ?thesis using il True assms by simp
  next
    case ne: False
    from bits_bounds[OF n] have "2 ^ (bits n - 1) \<le> n" by simp
    then have "(of_nat (2 ^ (bits n - 1)) :: rat) \<le> of_nat n" by (simp only: of_nat_le_iff)
    then have "(2 :: rat) ^ (bits n - 1) \<le> of_nat n" by simp
    also have "\<dots> \<le> 1 / q" unfolding nq by simp
    finally have "2 ^ (bits n - 1) * q \<le> 1" using assms by (simp add: field_simps)
    then have "q \<le> 1 / 2 ^ (bits n - 1)" by (simp add: field_simps)
    with ne p have "q < pow2 (1 - k)" by simp
    moreover have "ilog2 q + 1 = 1 - k" using il ne by simp
    ultimately show ?thesis by simp
  qed
qed

lemma round_half_even_int: "round_half_even (of_int k) = k"
  by (simp add: round_half_even_def)

lemma round_half_even_ge: "1 \<le> x \<Longrightarrow> 1 \<le> round_half_even x"
proof -
  assume "1 \<le> x"
  then have "1 \<le> \<lfloor>x\<rfloor>" by simp
  then show ?thesis by (simp add: round_half_even_def Let_def)
qed

lemma round_half_even_le: "of_int (round_half_even x) \<le> x + 1"
proof -
  have "round_half_even x \<le> \<lfloor>x\<rfloor> + 1" by (simp add: round_half_even_def Let_def)
  then have "(of_int (round_half_even x) :: rat) \<le> of_int (\<lfloor>x\<rfloor> + 1)"
    by (simp only: of_int_le_iff)
  also have "\<dots> \<le> x + 1" by simp
  finally show ?thesis .
qed

lemma round_double_unfold:
  assumes "q \<noteq> 0" and "e = max (ilog2 \<bar>q\<bar> - 52) (- 1074)"
    and "v = of_int (round_half_even (\<bar>q\<bar> / pow2 e)) * pow2 e"
  shows "round_double q = (if pow2 1024 \<le> v then (if 0 < q then PosInf else NegInf)
                           else Finite (if 0 < q then v else - v))"
  using assms by (simp add: round_double_def Let_def)

lemma two_53_lt: "(2 :: rat) ^ 53 < pow2 1024"
  by (simp add: pow2_def)

lemma round_double_int:
  assumes "\<bar>n\<bar> \<le> 2 ^ 53"
  shows "round_double (of_int n) = Finite (of_int n)"
proof (cases "n = 0")
  case True
  then show ?thesis by (simp add: round_double_def)
next
  case False
  define a where "a = \<bar>n\<bar>"
  define k where "k = nat a"
  define E where "E = int (bits k) - 1"
  define e where "e = max (E - 52) (- 1074)"
  from False have a1: "1 \<le> a" by (simp add: a_def)
  then have k: "0 < k" by (simp add: k_def)
  have ka: "int k = a" using a1 by (simp add: k_def)
  have ab: "\<bar>rat_of_int n\<bar> = of_int a" by (simp add: a_def)
  from a1 have ra1: "1 \<le> rat_of_int a" by simp
  have il: "ilog2 (rat_of_int a) = E"
    using ra1 by (simp add: ilog2_def E_def k_def)
  from bits_bounds[OF k] have lo: "2 ^ (bits k - 1) \<le> k" and hi: "k < 2 ^ bits k" by simp_all
  from assms have a53: "a \<le> 2 ^ 53" by (simp add: a_def)
  then have k53: "k \<le> 2 ^ 53" by (simp add: k_def nat_le_iff)
  from lo k53 have "(2::nat) ^ (bits k - 1) \<le> 2 ^ 53" by (rule order_trans)
  then have b54: "bits k - 1 \<le> 53" by (rule power_le_imp_le_exp [rotated]) simp
  have bp: "0 < bits k" using k by (rule bits_gt0)
  then have E0: "0 \<le> E" by (simp add: E_def)
  then have e: "e = E - 52" by (simp add: e_def)
  have v: "of_int (round_half_even (rat_of_int a / pow2 e)) * pow2 e = rat_of_int a"
  proof (cases "bits k \<le> 53")
    case True
    define j where "j = 53 - bits k"
    have ej: "e = - int j" using True bp by (simp add: e E_def j_def)
    have p: "pow2 e = 1 / 2 ^ j" by (simp add: ej pow2_neg pow2_nat)
    have "rat_of_int a / pow2 e = of_int (a * 2 ^ j)" by (simp add: p)
    then have "round_half_even (rat_of_int a / pow2 e) = a * 2 ^ j"
      by (simp only: round_half_even_int)
    then show ?thesis by (simp add: p)
  next
    case False
    with b54 have b: "bits k = 54" by simp
    with lo k53 have "k = 2 ^ 53" by simp
    with ka have n: "a = 2 ^ 53" by simp
    have e1: "e = 1" by (simp add: e E_def b)
    have "rat_of_int a / pow2 e = of_int (2 ^ 52)" by (simp add: n e1 pow2_def)
    then have "round_half_even (rat_of_int a / pow2 e) = 2 ^ 52"
      by (simp only: round_half_even_int)
    then show ?thesis by (simp add: n e1 pow2_def)
  qed
  from a53 have "rat_of_int a \<le> of_int (2 ^ 53)" by (simp only: of_int_le_iff)
  with two_53_lt have lt: "\<not> pow2 1024 \<le> rat_of_int a" by simp
  have "round_double (of_int n)
          = (if pow2 1024 \<le> rat_of_int a then (if 0 < rat_of_int n then PosInf else NegInf)
             else Finite (if 0 < rat_of_int n then of_int a else - of_int a))"
  proof (rule round_double_unfold)
    show "rat_of_int n \<noteq> 0" using \<open>n \<noteq> 0\<close> by simp
    show "e = max (ilog2 \<bar>rat_of_int n\<bar> - 52) (- 1074)" by (simp only: ab il e_def)
    show "rat_of_int a = of_int (round_half_even (\<bar>rat_of_int n\<bar> / pow2 e)) * pow2 e"
      unfolding ab by (rule v [symmetric])
  qed
  with lt show ?thesis by (simp add: a_def)
qed

lemma pow2_e_le:
  assumes "0 < a" and "e = max (ilog2 a - 52) (- 1074)"
  shows "pow2 e \<le> max a (pow2 (- 1074))"
proof (cases "ilog2 a - 52 \<le> - 1074")
  case True
  with assms(2) have "e = - 1074" by simp
  then show ?thesis by simp
next
  case False
  with assms(2) have "e = ilog2 a - 52" by simp
  then have "pow2 e \<le> pow2 (ilog2 a)" by (simp add: pow2_mono)
  also have "\<dots> \<le> a" using assms(1) by (rule ilog2_lower)
  finally show ?thesis by simp
qed

lemma round_double_magnitude:
  assumes q: "q \<noteq> 0" and big: "pow2 (- 1074) \<le> \<bar>q\<bar>"
  shows "round_double q \<noteq> NaN
         \<and> (\<forall>x. round_double q = Finite x \<longrightarrow> pow2 (- 1074) \<le> \<bar>x\<bar>)"
proof -
  define e where "e = max (ilog2 \<bar>q\<bar> - 52) (- 1074)"
  define m where "m = round_half_even (\<bar>q\<bar> / pow2 e)"
  define v where "v = of_int m * pow2 e"
  from q have a: "0 < \<bar>q\<bar>" by simp
  from pow2_e_le[OF a e_def] big have "pow2 e \<le> \<bar>q\<bar>" by simp
  then have "1 \<le> \<bar>q\<bar> / pow2 e" using pow2_pos[of e] by (simp add: field_simps)
  then have "1 \<le> m" unfolding m_def by (rule round_half_even_ge)
  then have "(1 :: rat) \<le> of_int m" by simp
  then have "1 * pow2 e \<le> of_int m * pow2 e"
    using pow2_pos[of e] by (intro mult_right_mono) simp_all
  then have "pow2 e \<le> v" by (simp add: v_def)
  moreover have "pow2 (- 1074) \<le> pow2 e" by (rule pow2_mono) (simp add: e_def)
  ultimately have v: "pow2 (- 1074) \<le> v" by simp
  with pow2_pos[of "- 1074"] have "0 < v" by simp
  with v have av: "pow2 (- 1074) \<le> \<bar>v\<bar>" "pow2 (- 1074) \<le> \<bar>- v\<bar>" by simp_all
  have "round_double q = (if pow2 1024 \<le> v then (if 0 < q then PosInf else NegInf)
                           else Finite (if 0 < q then v else - v))"
    using q e_def by (rule round_double_unfold) (simp add: v_def m_def)
  with av show ?thesis by (auto split: if_splits)
qed

lemma round_double_finite:
  assumes "\<bar>q\<bar> \<le> 2 ^ 1000"
  shows "\<exists>x. round_double q = Finite x"
proof (cases "q = 0")
  case True
  then show ?thesis by (simp add: round_double_def)
next
  case q: False
  define e where "e = max (ilog2 \<bar>q\<bar> - 52) (- 1074)"
  define m where "m = round_half_even (\<bar>q\<bar> / pow2 e)"
  define v where "v = of_int m * pow2 e"
  from q have a: "0 < \<bar>q\<bar>" by simp
  have "pow2 (- 1074) \<le> pow2 0" by (rule pow2_mono) simp
  then have one: "pow2 (- 1074) \<le> 2 ^ 1000" by (simp add: pow2_def)
  from pow2_e_le[OF a e_def] assms one have pe: "pow2 e \<le> 2 ^ 1000" by simp
  have "of_int m \<le> \<bar>q\<bar> / pow2 e + 1" unfolding m_def by (rule round_half_even_le)
  then have "of_int m * pow2 e \<le> (\<bar>q\<bar> / pow2 e + 1) * pow2 e"
    using pow2_pos[of e] by (intro mult_right_mono) simp_all
  also have "\<dots> = \<bar>q\<bar> + pow2 e" using pow2_pos[of e] by (simp add: field_simps)
  also have "\<dots> \<le> 2 ^ 1000 + 2 ^ 1000" using assms pe by (rule add_mono)
  also have "\<dots> < pow2 1024" by (simp add: pow2_def)
  finally have "\<not> pow2 1024 \<le> v" by (simp add: v_def)
  moreover have "round_double q = (if pow2 1024 \<le> v then (if 0 < q then PosInf else NegInf)
                           else Finite (if 0 < q then v else - v))"
    using q e_def by (rule round_double_unfold) (simp add: v_def m_def)
  ultimately show ?thesis by simp
qed

lemma float_of_int_exact: "\<bar>n\<bar> \<le> 2 ^ 53 \<Longrightarrow> float_of_int n = Inr (Finite (of_int n))"
  by (simp add: float_of_int_def round_double_int)

lemma float_div_finite:
  "b \<noteq> 0 \<Longrightarrow> float_div (Finite a) (Finite b) = Inr (round_double (a / b))"
  by (simp add: float_div_def)

lemma float_div_one:
  "\<bar>n\<bar> \<le> 2 ^ 53 \<Longrightarrow> float_div (Finite (of_int n)) (Finite 1) = Inr (Finite (of_int n))"
  by (simp add: float_div_def round_double_int)

lemma float_div_returns: "y \<noteq> Finite 0 \<Longrightarrow> \<exists>q. float_div x y = Inr q"
  by (cases y) (simp_all add: float_div_def)

text \<open>A rounding whose steps are given.\<close>

lemma round_double_pos:
  assumes "0 < q" and "ilog2 q = E" and "max (E - 52) (- 1074) = e"
    and "round_half_even (q / pow2 e) = m" and "of_int m * pow2 e = v" and "v < pow2 1024"
  shows "round_double q = Finite v"
  using assms by (simp add: round_double_def Let_def)

lemmas round_double_steps =
  ilog2_def bits_num bits_0 bits_1 pow2_def round_half_even_def Let_def floor_rat_numeral

text \<open>
  The divisor of \<open>AggregationBin.average\<close>, for a count \<open>c\<close> and a base frequency \<open>bf\<close>:
  it is zero when one of them is, and only then.
\<close>

lemma thousandth_finite:
  assumes "\<bar>bf\<bar> \<le> 2 ^ 53"
  shows "\<exists>y. round_double (of_int bf / 1000) = Finite y"
proof (rule round_double_finite)
  from assms have "rat_of_int \<bar>bf\<bar> \<le> of_int (2 ^ 53)" by (simp only: of_int_le_iff)
  then have "\<bar>rat_of_int bf\<bar> \<le> 2 ^ 53" by simp
  moreover have "\<bar>rat_of_int bf / 1000\<bar> \<le> \<bar>rat_of_int bf\<bar>" by (simp add: field_simps)
  moreover have "(2 :: rat) ^ 53 \<le> 2 ^ 1000" by (rule power_increasing) simp_all
  ultimately show "\<bar>rat_of_int bf / 1000\<bar> \<le> 2 ^ 1000" by linarith
qed

lemma scale_product_zero:
  assumes "c = 0 \<or> bf = 0" and "\<bar>bf\<bar> \<le> 2 ^ 53"
  shows "float_mul (Finite (of_int c)) (round_double (of_int bf / 1000)) = Finite 0"
proof -
  from thousandth_finite[OF assms(2)] obtain y
    where y: "round_double (of_int bf / 1000) = Finite y" by blast
  from assms(1) show ?thesis
  proof
    assume "c = 0"
    have "float_mul (Finite 0) (Finite y) = Finite 0"
      by (simp add: float_mul_def round_double_def)
    with \<open>c = 0\<close> y show ?thesis by simp
  next
    assume "bf = 0"
    then show ?thesis by (simp add: float_mul_def round_double_def)
  qed
qed

lemma scale_product_nonzero:
  assumes c: "c \<noteq> 0" and bf: "bf \<noteq> 0" and b: "\<bar>bf\<bar> \<le> 2 ^ 53"
  shows "float_mul (Finite (of_int c)) (round_double (of_int bf / 1000)) \<noteq> Finite 0"
proof -
  define q where "q = rat_of_int bf / 1000"
  from thousandth_finite[OF b] obtain y where y: "round_double q = Finite y"
    unfolding q_def by blast
  have small: "pow2 (- 1074) \<le> 1 / 1000"
  proof -
    have "pow2 (- 1074) \<le> pow2 (- 10)" by (rule pow2_mono) simp
    also have "\<dots> \<le> 1 / 1000" by (simp add: pow2_def)
    finally show ?thesis .
  qed
  from bf have "1 \<le> \<bar>bf\<bar>" by simp
  then have "rat_of_int 1 \<le> of_int \<bar>bf\<bar>" by (simp only: of_int_le_iff)
  then have "1 \<le> \<bar>rat_of_int bf\<bar>" by simp
  then have "1 / 1000 \<le> \<bar>q\<bar>" by (simp add: q_def)
  with small have qb: "pow2 (- 1074) \<le> \<bar>q\<bar>" by simp
  from bf have q0: "q \<noteq> 0" by (simp add: q_def)
  from round_double_magnitude[OF q0 qb] y have yb: "pow2 (- 1074) \<le> \<bar>y\<bar>" by simp
  with pow2_pos[of "- 1074"] have y0: "y \<noteq> 0" by auto
  from c have "1 \<le> \<bar>c\<bar>" by simp
  then have "rat_of_int 1 \<le> of_int \<bar>c\<bar>" by (simp only: of_int_le_iff)
  then have c1: "1 \<le> \<bar>rat_of_int c\<bar>" by simp
  have "\<bar>y\<bar> = 1 * \<bar>y\<bar>" by simp
  also have "\<dots> \<le> \<bar>rat_of_int c\<bar> * \<bar>y\<bar>" using c1 by (intro mult_right_mono) simp_all
  finally have "\<bar>y\<bar> \<le> \<bar>rat_of_int c * y\<bar>" by (simp add: abs_mult)
  with yb have pb: "pow2 (- 1074) \<le> \<bar>rat_of_int c * y\<bar>" by simp
  from c y0 have p0: "rat_of_int c * y \<noteq> 0" by simp
  from round_double_magnitude[OF p0 pb] pow2_pos[of "- 1074"]
  have "round_double (rat_of_int c * y) \<noteq> Finite 0" by auto
  then show ?thesis by (simp add: float_mul_def y q_def [symmetric])
qed

section \<open>The queries on a valid time range\<close>

lemma column_limit_None:
  "column_limit name cfam keys a b None
     = ([MultigetCount name keys a b], sum_list (map snd (multiget_count cfam keys a b)) + 5)"
proof -
  have "foldl (\<lambda>cols kv. cols + snd kv) acc xs = acc + sum_list (map snd xs)"
    for acc :: int and xs :: "(string \<times> int) list"
    by (induction xs arbitrary: acc) simp_all
  from this[of 0] show ?thesis by (simp add: column_limit_def)
qed

lemma query_raw_keys:
  assumes "get_row_keys p f a b = Inr keys"
  shows "query_raw_data db p f a b cc =
           (fst (column_limit RawCF (raw_data db) keys a b cc)
              @ [Multiget RawCF keys a b (snd (column_limit RawCF (raw_data db) keys a b cc)) False],
            Inr (map (\<lambda>col. \<lparr>wd_ts = fst col, wd_val = snd col\<rparr>)
              (concat (map snd (multiget (raw_data db) keys a b
                 (snd (column_limit RawCF (raw_data db) keys a b cc)) False)))))"
  using assms by (simp add: query_raw_data_def Let_def split: prod.splits)

lemma query_baserate_keys:
  assumes "get_row_keys p f a b = Inr keys"
  shows "query_baserate_timerange db p f a b cf cc =
           (fst (column_limit RateCF (rates db) keys a b cc)
              @ [Multiget RateCF keys a b (snd (column_limit RateCF (rates db) keys a b cc)) False],
            map_result
              (baserate_datum
                 (if cf = Some ''delta'' then 1
                  else (case f of None \<Rightarrow> 1000 | Some n \<Rightarrow> n) div 1000))
              (concat (map snd (multiget (rates db) keys a b
                 (snd (column_limit RateCF (rates db) keys a b cc)) False))))"
  using assms by (auto simp: query_baserate_timerange_def Let_def split: prod.splits)

lemma query_aggregation_rate_keys:
  assumes "get_row_keys p f a b = Inr keys" and "cf \<noteq> Some ''min''" and "cf \<noteq> Some ''max''"
  shows "query_aggregation_timerange db p f a b cf cc =
           (fst (column_limit AggCF (aggs db) keys a b cc)
              @ [Multiget AggCF keys a b (snd (column_limit AggCF (aggs db) keys a b cc)) False],
            map_result (agg_datum (if cf = Some ''raw'' then cf else Some ''average''))
              (concat (map snd (multiget (aggs db) keys a b
                 (snd (column_limit AggCF (aggs db) keys a b cc)) False))))"
  using assms
  by (auto simp: query_aggregation_timerange_def AGG_TYPES_def Let_def split: prod.splits)

lemma query_aggregation_stat_keys:
  assumes "get_row_keys p f a b = Inr keys" and "cf = Some ''min'' \<or> cf = Some ''max''"
  shows "query_aggregation_timerange db p f a b cf cc =
           (fst (column_limit StatCF (stat_agg db) keys a b cc)
              @ [Multiget StatCF keys a b (snd (column_limit StatCF (stat_agg db) keys a b cc)) False],
            map_result (stat_datum cf)
              (concat (map snd (multiget (stat_agg db) keys a b
                 (snd (column_limit StatCF (stat_agg db) keys a b cc)) False))))"
  using assms
  by (auto simp: query_aggregation_timerange_def AGG_TYPES_def Let_def split: prod.splits)

lemma ex_row_keys:
  "get_row_keys ex_path (Some 30000) 1343955600000 1343955630000 = Inr [''r1:ifIn:30000:2012'']"
  "get_row_keys ex_path (Some 3600000) 1343955600000 1343955630000 = Inr [''r1:ifIn:3600000:2012'']"
  "get_row_keys ex_path (Some 86400000) 1343952000000 1343955630000 = Inr [''r1:ifIn:86400000:2012'']"
  by (simp_all add: get_row_keys_def utcfromtimestamp_ms_def dt_year_ex ex_keys)

lemma map_result_ok:
  "(\<forall>x \<in> set xs. \<exists>y. f x = Inr y) \<Longrightarrow> \<exists>ys. map_result f xs = Inr ys"
  by (induction xs) auto

section \<open>The consolidation of one column\<close>

lemma baserate_datum_ok:
  assumes "map_of vv ''val'' = Some x" and "map_of vv ''is_valid'' = Some y"
    and "d \<noteq> 0" and "\<bar>x\<bar> \<le> 2 ^ 53" and "\<bar>d\<bar> \<le> 2 ^ 53"
  shows "baserate_datum d (kk, vv)
           = Inr \<lparr>bd_ts = kk, bd_val = round_double (of_int x / of_int d), bd_is_valid = y\<rparr>"
  using assms by (simp add: baserate_datum_def subscript_def float_of_int_exact float_div_finite)

lemma baserate_datum_one:
  assumes "map_of vv ''val'' = Some x" and "map_of vv ''is_valid'' = Some y"
    and "\<bar>x\<bar> \<le> 2 ^ 53"
  shows "baserate_datum 1 (kk, vv) = Inr \<lparr>bd_ts = kk, bd_val = Finite (of_int x), bd_is_valid = y\<rparr>"
  using assms float_of_int_exact[of 1] float_div_one[of x]
  by (simp add: baserate_datum_def subscript_def float_of_int_exact)


lemma baserate_datum_returns:
  assumes "\<exists>x. map_of (snd col) ''val'' = Some x \<and> \<bar>x\<bar> \<le> 2 ^ 53"
    and "map_of (snd col) ''is_valid'' \<noteq> None"
    and "d \<noteq> 0" and "\<bar>d\<bar> \<le> 2 ^ 53"
  shows "\<exists>y. baserate_datum d col = Inr y"
proof -
  from assms(1) obtain x where x: "map_of (snd col) ''val'' = Some x" "\<bar>x\<bar> \<le> 2 ^ 53"
    by blast
  from assms(2) obtain iv where iv: "map_of (snd col) ''is_valid'' = Some iv" by blast
  from baserate_datum_ok[OF x(1) iv assms(3) x(2) assms(4), of "fst col"]
  show ?thesis by simp
qed

text \<open>
  The aggregation: \<open>val / (count * (base_freq/1000.0))\<close> in floating-point arithmetic,
  \<open>ZeroDivisionError\<close> when the product is zero.
\<close>

lemma agg_datum_average:
  assumes "agg_fields vv = (Some x, Some nm, Some c)" and "int_of_str nm = Inr bf"
    and "utcfromtimestamp_ms t = Inr t"
    and "\<bar>x\<bar> \<le> 2 ^ 53" and "\<bar>c\<bar> \<le> 2 ^ 53" and "\<bar>bf\<bar> \<le> 2 ^ 53"
  shows "agg_datum (Some ''average'') (t, vv)
           = (case float_div (Finite (of_int x))
                     (float_mul (Finite (of_int c)) (round_double (of_int bf / 1000))) of
                Inl e \<Rightarrow> Inl e
              | Inr q \<Rightarrow> Inr (AggDatum t (PyFloat q) (Some ''average'')))"
  using assms
  by (simp add: agg_datum_def AggregationBin_def average_def float_of_int_exact
        float_div_finite split: sum.splits)

lemma agg_datum_returns:
  assumes "\<exists>x nm c bf. agg_fields (snd col) = (Some x, Some nm, Some c)
             \<and> int_of_str nm = Inr bf \<and> c \<noteq> 0 \<and> bf \<noteq> 0
             \<and> \<bar>x\<bar> \<le> 2 ^ 53 \<and> \<bar>c\<bar> \<le> 2 ^ 53 \<and> \<bar>bf\<bar> \<le> 2 ^ 53"
    and "utcfromtimestamp_ms (fst col) = Inr (fst col)"
  shows "\<exists>y. agg_datum (Some ''average'') col = Inr y"
proof -
  from assms(1) obtain x nm c bf
    where f: "agg_fields (snd col) = (Some x, Some nm, Some c)" "int_of_str nm = Inr bf"
      and nz: "c \<noteq> 0" "bf \<noteq> 0"
      and b: "\<bar>x\<bar> \<le> 2 ^ 53" "\<bar>c\<bar> \<le> 2 ^ 53" "\<bar>bf\<bar> \<le> 2 ^ 53"
    by blast
  from float_div_returns[OF scale_product_nonzero[OF nz b(3)]]
  obtain q where "float_div (Finite (of_int x))
                    (float_mul (Finite (of_int c)) (round_double (of_int bf / 1000))) = Inr q"
    by blast
  with agg_datum_average[OF f assms(2) b, of ] show ?thesis by simp
qed

lemma agg_datum_zero:
  assumes "agg_fields vv = (Some x, Some nm, Some c)" and "int_of_str nm = Inr bf"
    and "utcfromtimestamp_ms t = Inr t"
    and "\<bar>x\<bar> \<le> 2 ^ 53" and "\<bar>c\<bar> \<le> 2 ^ 53" and "\<bar>bf\<bar> \<le> 2 ^ 53"
    and "c = 0 \<or> bf = 0"
  shows "agg_datum (Some ''average'') (t, vv) = Inl ZeroDivisionError"
  using agg_datum_average[OF assms(1-6)] scale_product_zero[OF assms(7) assms(6)]
  by (simp add: float_div_def)

lemma int_of_str_val: "int_of_str ''val'' = Inl ValueError"
  by (simp add: int_of_str_def strip_def is_space_def digit_val_def)

lemma str_int_not_val: "str_int bf \<noteq> ''val''"
proof
  assume "str_int bf = ''val''"
  then have "int_of_str (str_int bf) = int_of_str ''val''" by (rule arg_cong)
  then show False by (simp add: int_of_str_str_int int_of_str_val)
qed

lemma agg_fields_written:
  "agg_fields [(str_int bf, c), (''val'', x)] = (Some x, Some (str_int bf), Some c)"
  "agg_fields [(''val'', x), (str_int bf, c)] = (Some x, Some (str_int bf), Some c)"
  by (simp_all add: agg_fields_def str_int_not_val)

text \<open>A column as \<open>update_rate_aggregation\<close> writes it is read back with its base frequency.\<close>

lemma agg_datum_written:
  assumes "utcfromtimestamp_ms t = Inr t"
    and "\<bar>x\<bar> \<le> 2 ^ 53" and "\<bar>c\<bar> \<le> 2 ^ 53" and "\<bar>bf\<bar> \<le> 2 ^ 53"
  shows "agg_datum (Some ''average'') (t, [(str_int bf, c), (''val'', x)])
           = (case float_div (Finite (of_int x))
                     (float_mul (Finite (of_int c)) (round_double (of_int bf / 1000))) of
                Inl e \<Rightarrow> Inl e
              | Inr q \<Rightarrow> Inr (AggDatum t (PyFloat q) (Some ''average'')))"
  using agg_datum_average[OF agg_fields_written(1) int_of_str_str_int assms] .

text \<open>The values of the example.\<close>

lemma round_double_ex:
  "round_double 1000 = Finite 1000"
  "round_double 30 = Finite 30"
  "round_double 1140 = Finite 1140"
  "round_double 2000 = Finite 2000"
  "round_double 3000 = Finite 3000"
  "round_double 30000 = Finite 30000"
  "round_double 9007199254740992 = Finite 9007199254740992"
  using round_double_int[of 1000] round_double_int[of 30] round_double_int[of 1140]
    round_double_int[of 2000] round_double_int[of 3000] round_double_int[of 30000]
    round_double_int[of 9007199254740992]
  by simp_all

lemma round_double_quotient_ex:
  "round_double (617 / 570) = Finite (1218737267582279 / 1125899906842624)"
  by (rule round_double_pos [where E = 0 and e = "- 52" and m = 4874949070329116])
     (simp_all add: round_double_steps)

lemma round_double_odd_ex: "round_double 9007199254740993 = Finite 9007199254740992"
  by (rule round_double_pos [where E = 53 and e = 1 and m = 4503599627370496])
     (simp_all add: round_double_steps)

lemma float_of_int_ex:
  "float_of_int 0 = Inr (Finite 0)"
  "float_of_int 1 = Inr (Finite 1)"
  "float_of_int 30 = Inr (Finite 30)"
  "float_of_int 38 = Inr (Finite 38)"
  "float_of_int 1234 = Inr (Finite 1234)"
  "float_of_int 3000 = Inr (Finite 3000)"
  "float_of_int 30000 = Inr (Finite 30000)"
  "float_of_int 9007199254740993 = Inr (Finite 9007199254740992)"
  using float_of_int_exact[of 0] float_of_int_exact[of 1] float_of_int_exact[of 30]
    float_of_int_exact[of 38] float_of_int_exact[of 1234] float_of_int_exact[of 3000]
    float_of_int_exact[of 30000]
  by (simp_all add: float_of_int_def round_double_odd_ex)

section \<open>Claims C8 and C7: the limit and the default of the consolidation\<close>

text \<open>
  C8. When \<open>column_count\<close> is left out, each of the three time-range queries makes two
  store calls: the count of the columns between \<open>ts_min\<close> and \<open>ts_max\<close> in every row key
  of the range, then the slice of the same rows and range whose column count is the sum
  of these counts plus 5. The aggregation query does so on \<open>stat_aggregations\<close> for
  \<open>min\<close> and \<open>max\<close> and on \<open>rate_aggregations\<close> otherwise.
\<close>

theorem soft_limit_padding:
  assumes "get_row_keys p f a b = Inr keys"
  shows "fst (query_raw_data db p f a b None)
           = [MultigetCount RawCF keys a b,
              Multiget RawCF keys a b
                (sum_list (map snd (multiget_count (raw_data db) keys a b)) + 5) False]
       \<and> fst (query_baserate_timerange db p f a b cf None)
           = [MultigetCount RateCF keys a b,
              Multiget RateCF keys a b
                (sum_list (map snd (multiget_count (rates db) keys a b)) + 5) False]
       \<and> fst (query_aggregation_timerange db p f a b cf None)
           = (if cf = Some ''min'' \<or> cf = Some ''max''
              then [MultigetCount StatCF keys a b,
                    Multiget StatCF keys a b
                      (sum_list (map snd (multiget_count (stat_agg db) keys a b)) + 5) False]
              else [MultigetCount AggCF keys a b,
                    Multiget AggCF keys a b
                      (sum_list (map snd (multiget_count (aggs db) keys a b)) + 5) False])"
proof -
  have raw: "fst (query_raw_data db p f a b None)
           = [MultigetCount RawCF keys a b,
              Multiget RawCF keys a b
                (sum_list (map snd (multiget_count (raw_data db) keys a b)) + 5) False]"
    by (simp add: query_raw_keys[OF assms] column_limit_None)
  have rate: "fst (query_baserate_timerange db p f a b cf None)
           = [MultigetCount RateCF keys a b,
              Multiget RateCF keys a b
                (sum_list (map snd (multiget_count (rates db) keys a b)) + 5) False]"
    by (simp add: query_baserate_keys[OF assms] column_limit_None)
  have agg: "fst (query_aggregation_timerange db p f a b cf None)
           = (if cf = Some ''min'' \<or> cf = Some ''max''
              then [MultigetCount StatCF keys a b,
                    Multiget StatCF keys a b
                      (sum_list (map snd (multiget_count (stat_agg db) keys a b)) + 5) False]
              else [MultigetCount AggCF keys a b,
                    Multiget AggCF keys a b
                      (sum_list (map snd (multiget_count (aggs db) keys a b)) + 5) False])"
  proof (cases "cf = Some ''min'' \<or> cf = Some ''max''")
    case True
    then show ?thesis
      by (simp add: query_aggregation_stat_keys[OF assms True] column_limit_None)
  next
    case False
    then have "cf \<noteq> Some ''min''" "cf \<noteq> Some ''max''" by simp_all
    from query_aggregation_rate_keys[OF assms this] False show ?thesis
      by (simp add: column_limit_None)
  qed
  from raw rate agg show ?thesis by simp
qed

theorem soft_limit_padding_witness:
  "fst (query_raw_data ex_db ex_path (Some 30000) 1343955600000 1343955630000 None)
     = [MultigetCount RawCF [''r1:ifIn:30000:2012''] 1343955600000 1343955630000,
        Multiget RawCF [''r1:ifIn:30000:2012''] 1343955600000 1343955630000 7 False]
   \<and> fst (query_baserate_timerange ex_db ex_path (Some 30000) 1343955600000 1343955630000
            (Some ''average'') None)
     = [MultigetCount RateCF [''r1:ifIn:30000:2012''] 1343955600000 1343955630000,
        Multiget RateCF [''r1:ifIn:30000:2012''] 1343955600000 1343955630000 6 False]
   \<and> fst (query_aggregation_timerange ex_db ex_path (Some 30000) 1343955600000 1343955630000
            (Some ''average'') None)
     = [MultigetCount AggCF [''r1:ifIn:30000:2012''] 1343955600000 1343955630000,
        Multiget AggCF [''r1:ifIn:30000:2012''] 1343955600000 1343955630000 5 False]"
  using soft_limit_padding[OF ex_row_keys(1), of ex_db "Some ''average''"]
  by (simp add: multiget_count_def ex_db_def)

text \<open>
  C7. A consolidation argument outside \<open>average\<close> and \<open>delta\<close> makes
  \<open>query_baserate_timerange\<close> make the same store calls and return the same result, or
  raise the same exception, as \<open>average\<close> does, and an argument outside \<open>AGG_TYPES\<close>
  (also the default \<open>None\<close>) does so for \<open>query_aggregation_timerange\<close>: the argument
  itself raises nothing. The query returns a list of results when the time range is
  valid and every column of the slice can be consolidated: the base rates have \<open>val\<close>
  and \<open>is_valid\<close> and the integer quotient of the frequency by 1000 is not zero; the
  aggregations have \<open>val\<close>, a count and a base frequency that are not zero, and a column
  name in the range of \<open>datetime\<close>; the integers are at most \<open>2^53\<close> in absolute value.
  Otherwise it can raise what \<open>average\<close> raises: a base frequency under 1000 ms makes
  the divisor zero.
\<close>

theorem invalid_consolidation_defaults:
  "(cf \<notin> {Some ''average'', Some ''delta''} \<longrightarrow>
      query_baserate_timerange db p f a b cf cc
        = query_baserate_timerange db p f a b (Some ''average'') cc
      \<and> (\<forall>keys. get_row_keys p f a b = Inr keys
            \<and> (case f of None \<Rightarrow> 1000 | Some n \<Rightarrow> n) div 1000 \<noteq> 0
            \<and> \<bar>(case f of None \<Rightarrow> 1000 | Some n \<Rightarrow> n) div 1000\<bar> \<le> 2 ^ 53
            \<and> (\<forall>col \<in> set (concat (map snd (multiget (rates db) keys a b
                    (snd (column_limit RateCF (rates db) keys a b cc)) False))).
                  (\<exists>x. map_of (snd col) ''val'' = Some x \<and> \<bar>x\<bar> \<le> 2 ^ 53)
                  \<and> map_of (snd col) ''is_valid'' \<noteq> None)
          \<longrightarrow> (\<exists>rs. snd (query_baserate_timerange db p f a b cf cc) = Inr rs)))
   \<and> (cf \<notin> set (map Some AGG_TYPES) \<longrightarrow>
      query_aggregation_timerange db p f a b cf cc
        = query_aggregation_timerange db p f a b (Some ''average'') cc
      \<and> (\<forall>keys. get_row_keys p f a b = Inr keys
            \<and> (\<forall>col \<in> set (concat (map snd (multiget (aggs db) keys a b
                    (snd (column_limit AggCF (aggs db) keys a b cc)) False))).
                  (\<exists>x nm c bf. agg_fields (snd col) = (Some x, Some nm, Some c)
                     \<and> int_of_str nm = Inr bf \<and> c \<noteq> 0 \<and> bf \<noteq> 0
                     \<and> \<bar>x\<bar> \<le> 2 ^ 53 \<and> \<bar>c\<bar> \<le> 2 ^ 53 \<and> \<bar>bf\<bar> \<le> 2 ^ 53)
                  \<and> utcfromtimestamp_ms (fst col) = Inr (fst col))
          \<longrightarrow> (\<exists>rs. snd (query_aggregation_timerange db p f a b cf cc) = Inr rs)))"
proof (intro conjI impI allI)
  assume "cf \<notin> {Some ''average'', Some ''delta''}"
  then show "query_baserate_timerange db p f a b cf cc
        = query_baserate_timerange db p f a b (Some ''average'') cc"
    by (cases "get_row_keys p f a b")
       (auto simp: query_baserate_timerange_def Let_def split: prod.splits)
next
  fix keys
  assume cf: "cf \<notin> {Some ''average'', Some ''delta''}"
    and h: "get_row_keys p f a b = Inr keys
            \<and> (case f of None \<Rightarrow> 1000 | Some n \<Rightarrow> n) div 1000 \<noteq> 0
            \<and> \<bar>(case f of None \<Rightarrow> 1000 | Some n \<Rightarrow> n) div 1000\<bar> \<le> 2 ^ 53
            \<and> (\<forall>col \<in> set (concat (map snd (multiget (rates db) keys a b
                    (snd (column_limit RateCF (rates db) keys a b cc)) False))).
                  (\<exists>x. map_of (snd col) ''val'' = Some x \<and> \<bar>x\<bar> \<le> 2 ^ 53)
                  \<and> map_of (snd col) ''is_valid'' \<noteq> None)"
  from h have keys: "get_row_keys p f a b = Inr keys" by simp
  from cf have nd: "cf \<noteq> Some ''delta''" by simp
  from h have "\<forall>col \<in> set (concat (map snd (multiget (rates db) keys a b
                    (snd (column_limit RateCF (rates db) keys a b cc)) False))).
                 \<exists>y. baserate_datum ((case f of None \<Rightarrow> 1000 | Some n \<Rightarrow> n) div 1000) col = Inr y"
    by (intro ballI baserate_datum_returns) auto
  from map_result_ok[OF this]
  show "\<exists>rs. snd (query_baserate_timerange db p f a b cf cc) = Inr rs"
    by (simp add: query_baserate_keys[OF keys] nd)
next
  assume "cf \<notin> set (map Some AGG_TYPES)"
  then show "query_aggregation_timerange db p f a b cf cc
        = query_aggregation_timerange db p f a b (Some ''average'') cc"
    by (simp add: query_aggregation_timerange_def AGG_TYPES_def)
next
  fix keys
  assume cf: "cf \<notin> set (map Some AGG_TYPES)"
    and h: "get_row_keys p f a b = Inr keys
            \<and> (\<forall>col \<in> set (concat (map snd (multiget (aggs db) keys a b
                    (snd (column_limit AggCF (aggs db) keys a b cc)) False))).
                  (\<exists>x nm c bf. agg_fields (snd col) = (Some x, Some nm, Some c)
                     \<and> int_of_str nm = Inr bf \<and> c \<noteq> 0 \<and> bf \<noteq> 0
                     \<and> \<bar>x\<bar> \<le> 2 ^ 53 \<and> \<bar>c\<bar> \<le> 2 ^ 53 \<and> \<bar>bf\<bar> \<le> 2 ^ 53)
                  \<and> utcfromtimestamp_ms (fst col) = Inr (fst col))"
  from h have keys: "get_row_keys p f a b = Inr keys" by simp
  from cf have n: "cf \<noteq> Some ''min''" "cf \<noteq> Some ''max''" "cf \<noteq> Some ''raw''"
    by (simp_all add: AGG_TYPES_def)
  from h have "\<forall>col \<in> set (concat (map snd (multiget (aggs db) keys a b
                    (snd (column_limit AggCF (aggs db) keys a b cc)) False))).
                 \<exists>y. agg_datum (Some ''average'') col = Inr y"
    by (intro ballI agg_datum_returns) auto
  from map_result_ok[OF this]
  show "\<exists>rs. snd (query_aggregation_timerange db p f a b cf cc) = Inr rs"
    by (simp add: query_aggregation_rate_keys[OF keys n(1) n(2)] n(3))
qed

lemma ex_rate_average:
  "query_baserate_timerange ex_db ex_path (Some 30000) 1343955600000 1343955630000
       (Some ''average'') None
     = ([MultigetCount RateCF [''r1:ifIn:30000:2012''] 1343955600000 1343955630000,
         Multiget RateCF [''r1:ifIn:30000:2012''] 1343955600000 1343955630000 6 False],
        Inr [\<lparr>bd_ts = 1343955600000, bd_val = Finite 1000, bd_is_valid = 1\<rparr>])"
  by (simp add: query_baserate_keys[OF ex_row_keys(1)] column_limit_None multiget_count_def
        multiget_def row_slice_def ex_db_def baserate_datum_def subscript_def
        float_of_int_ex float_div_def round_double_ex)

lemma ex_agg_average:
  "query_aggregation_timerange ex_db ex_path (Some 3600000) 1343955600000 1343955630000
       (Some ''average'') None
     = ([MultigetCount AggCF [''r1:ifIn:3600000:2012''] 1343955600000 1343955630000,
         Multiget AggCF [''r1:ifIn:3600000:2012''] 1343955600000 1343955630000 6 False],
        Inr [AggDatum 1343955600000
               (PyFloat (Finite (1218737267582279 / 1125899906842624))) (Some ''average'')])"
  using int_of_str_str_int[of 30000]
  by (simp add: query_aggregation_rate_keys[OF ex_row_keys(2)] column_limit_None
        multiget_count_def multiget_def row_slice_def ex_db_def agg_datum_def agg_fields_def
        AggregationBin_def utcfromtimestamp_ms_def dt_year_ex average_def str_int_30000
        float_of_int_ex float_div_def float_mul_def round_double_ex round_double_quotient_ex)

theorem invalid_consolidation_defaults_witness:
  "query_baserate_timerange ex_db ex_path (Some 30000) 1343955600000 1343955630000
       (Some ''bogus'') None
     = ([MultigetCount RateCF [''r1:ifIn:30000:2012''] 1343955600000 1343955630000,
         Multiget RateCF [''r1:ifIn:30000:2012''] 1343955600000 1343955630000 6 False],
        Inr [\<lparr>bd_ts = 1343955600000, bd_val = Finite 1000, bd_is_valid = 1\<rparr>])
   \<and> query_aggregation_timerange ex_db ex_path (Some 3600000) 1343955600000 1343955630000
       None None
     = ([MultigetCount AggCF [''r1:ifIn:3600000:2012''] 1343955600000 1343955630000,
         Multiget AggCF [''r1:ifIn:3600000:2012''] 1343955600000 1343955630000 6 False],
        Inr [AggDatum 1343955600000
               (PyFloat (Finite (1218737267582279 / 1125899906842624))) (Some ''average'')])"
proof -
  have b: "Some ''bogus'' \<notin> {Some ''average'', Some ''delta''}" by simp
  have n: "None \<notin> set (map Some AGG_TYPES)" by (simp add: AGG_TYPES_def)
  note r1 = invalid_consolidation_defaults[of "Some ''bogus'' " ex_db ex_path "Some 30000"
      1343955600000 1343955630000 None, THEN conjunct1, rule_format, OF b, THEN conjunct1]
  note r2 = invalid_consolidation_defaults[of None ex_db ex_path "Some 3600000"
      1343955600000 1343955630000 None, THEN conjunct2, rule_format, OF n, THEN conjunct1]
  from r1 r2 show ?thesis by (simp add: ex_rate_average ex_agg_average)
qed

text \<open>
  A series polled every 500 ms: the integer quotient of the frequency by 1000 is zero,
  and the query with an invalid consolidation raises \<open>ZeroDivisionError\<close> at the first
  column, where \<open>delta\<close> returns the list.
\<close>

theorem invalid_consolidation_defaults_counterexample:
  "snd (query_baserate_timerange
          (ex_db\<lparr>rates := (\<lambda>k. if k = ''r1:ifIn:500:2012''
                                then [(1343955600000, [(''is_valid'', 1), (''val'', 3000)])]
                                else [])\<rparr>)
          ex_path (Some 500) 1343955600000 1343955630000 (Some ''bogus'') None)
     = Inl ZeroDivisionError
   \<and> snd (query_baserate_timerange
          (ex_db\<lparr>rates := (\<lambda>k. if k = ''r1:ifIn:500:2012''
                                then [(1343955600000, [(''is_valid'', 1), (''val'', 3000)])]
                                else [])\<rparr>)
          ex_path (Some 500) 1343955600000 1343955630000 (Some ''delta'') None)
     = Inr [\<lparr>bd_ts = 1343955600000, bd_val = Finite 3000, bd_is_valid = 1\<rparr>]"
proof -
  have s: "str_int 500 = ''500''"
    by (simp add: str_int_def str_nat.simps digit_char_def)
  have k: "get_row_keys ex_path (Some 500) 1343955600000 1343955630000 = Inr [''r1:ifIn:500:2012'']"
    by (simp add: get_row_keys_def utcfromtimestamp_ms_def dt_year_ex get_rowkey_def
          escape_path_def ex_path_def KEY_DELIMITER_def BACKSLASH_def str_replace_char s
          str_int_2012)
  show ?thesis
    by (simp add: query_baserate_keys[OF k] column_limit_None multiget_count_def multiget_def
          row_slice_def baserate_datum_def subscript_def float_of_int_ex float_div_def
          round_double_ex)
qed

section \<open>Claim C4: the consolidation formulas\<close>








section \<open>Claims C10 and C6\<close>

text \<open>
  C10. When \<open>freq\<close> is \<open>None\<close>, \<open>query_baserate_timerange\<close> does the same with \<open>average\<close>
  as with \<open>delta\<close>: the frequency becomes 1000 and the divisor 1. On a valid time range
  every column of the slice comes back with \<open>float(val) / 1\<close>, which is \<open>val\<close> when
  \<open>val\<close> is at most \<open>2^53\<close> in absolute value.
\<close>

theorem baserate_no_freq:
  "query_baserate_timerange db p None a b (Some ''average'') cc
     = query_baserate_timerange db p None a b (Some ''delta'') cc
   \<and> (\<forall>keys. get_row_keys p None a b = Inr keys
         \<and> (\<forall>col \<in> set (concat (map snd (multiget (rates db) keys a b
                 (snd (column_limit RateCF (rates db) keys a b cc)) False))).
               map_of (snd col) ''val'' = Some (v col)
               \<and> map_of (snd col) ''is_valid'' = Some (iv col)
               \<and> \<bar>v col\<bar> \<le> 2 ^ 53)
       \<longrightarrow> snd (query_baserate_timerange db p None a b (Some ''average'') cc)
             = Inr (map (\<lambda>col. \<lparr>bd_ts = fst col, bd_val = Finite (of_int (v col)),
                                 bd_is_valid = iv col\<rparr>)
                      (concat (map snd (multiget (rates db) keys a b
                         (snd (column_limit RateCF (rates db) keys a b cc)) False)))))"
proof (intro conjI allI impI)
  show "query_baserate_timerange db p None a b (Some ''average'') cc
     = query_baserate_timerange db p None a b (Some ''delta'') cc"
    by (cases "get_row_keys p None a b")
       (auto simp: query_baserate_timerange_def Let_def split: prod.splits)
next
  fix keys
  let ?rcols = "concat (map snd (multiget (rates db) keys a b
                 (snd (column_limit RateCF (rates db) keys a b cc)) False))"
  assume h: "get_row_keys p None a b = Inr keys
         \<and> (\<forall>col \<in> set ?rcols.
               map_of (snd col) ''val'' = Some (v col)
               \<and> map_of (snd col) ''is_valid'' = Some (iv col)
               \<and> \<bar>v col\<bar> \<le> 2 ^ 53)"
  then have keys: "get_row_keys p None a b = Inr keys" by simp
  have "\<forall>col \<in> set ?rcols. baserate_datum 1 col
          = Inr \<lparr>bd_ts = fst col, bd_val = Finite (of_int (v col)), bd_is_valid = iv col\<rparr>"
  proof
    fix col assume m: "col \<in> set ?rcols"
    from h have "\<forall>col \<in> set ?rcols.
               map_of (snd col) ''val'' = Some (v col)
               \<and> map_of (snd col) ''is_valid'' = Some (iv col)
               \<and> \<bar>v col\<bar> \<le> 2 ^ 53" by (rule conjunct2)
    from this m have "map_of (snd col) ''val'' = Some (v col)
               \<and> map_of (snd col) ''is_valid'' = Some (iv col)
               \<and> \<bar>v col\<bar> \<le> 2 ^ 53" by (rule bspec)
    then have c: "map_of (snd col) ''val'' = Some (v col)"
      "map_of (snd col) ''is_valid'' = Some (iv col)" "\<bar>v col\<bar> \<le> 2 ^ 53" by simp_all
    from baserate_datum_one[OF c, of "fst col"]
    show "baserate_datum 1 col
          = Inr \<lparr>bd_ts = fst col, bd_val = Finite (of_int (v col)), bd_is_valid = iv col\<rparr>"
      by simp
  qed
  then show "snd (query_baserate_timerange db p None a b (Some ''average'') cc)
             = Inr (map (\<lambda>col. \<lparr>bd_ts = fst col, bd_val = Finite (of_int (v col)),
                                 bd_is_valid = iv col\<rparr>) ?rcols)"
    by (simp add: query_baserate_keys[OF keys] map_result_map)
qed

theorem baserate_no_freq_witness:
  "query_baserate_timerange
      (ex_db\<lparr>rates := (\<lambda>k. if k = ''r1:ifIn:2012''
                            then [(1343955600000, [(''is_valid'', 1), (''val'', 30000)])]
                            else [])\<rparr>)
      ex_path None 1343955600000 1343955630000 (Some ''average'') None
     = query_baserate_timerange
      (ex_db\<lparr>rates := (\<lambda>k. if k = ''r1:ifIn:2012''
                            then [(1343955600000, [(''is_valid'', 1), (''val'', 30000)])]
                            else [])\<rparr>)
      ex_path None 1343955600000 1343955630000 (Some ''delta'') None
   \<and> snd (query_baserate_timerange
      (ex_db\<lparr>rates := (\<lambda>k. if k = ''r1:ifIn:2012''
                            then [(1343955600000, [(''is_valid'', 1), (''val'', 30000)])]
                            else [])\<rparr>)
      ex_path None 1343955600000 1343955630000 (Some ''average'') None)
     = Inr [\<lparr>bd_ts = 1343955600000, bd_val = Finite 30000, bd_is_valid = 1\<rparr>]"
proof -
  let ?db = "ex_db\<lparr>rates := (\<lambda>k. if k = ''r1:ifIn:2012''
                            then [(1343955600000, [(''is_valid'', 1), (''val'', 30000)])]
                            else [])\<rparr>"
  let ?v = "\<lambda>col :: int \<times> subcols. the (map_of (snd col) ''val'')"
  let ?iv = "\<lambda>col :: int \<times> subcols. the (map_of (snd col) ''is_valid'')"
  have k: "get_row_keys ex_path None 1343955600000 1343955630000 = Inr [''r1:ifIn:2012'']"
    by (simp add: get_row_keys_def utcfromtimestamp_ms_def dt_year_ex get_rowkey_def
          escape_path_def ex_path_def KEY_DELIMITER_def BACKSLASH_def str_replace_char
          str_int_2012)
  have sl: "concat (map snd (multiget (rates ?db) [''r1:ifIn:2012''] 1343955600000 1343955630000
          (snd (column_limit RateCF (rates ?db) [''r1:ifIn:2012''] 1343955600000
             1343955630000 None)) False))
      = [(1343955600000, [(''is_valid'', 1), (''val'', 30000)])]"
    by (simp add: column_limit_None multiget_count_def multiget_def row_slice_def)
  have rok: "\<forall>col \<in> set [(1343955600000 :: int, [(''is_valid'', 1 :: int), (''val'', 30000)])].
               map_of (snd col) ''val'' = Some (?v col)
               \<and> map_of (snd col) ''is_valid'' = Some (?iv col)
               \<and> \<bar>?v col\<bar> \<le> 2 ^ 53"
    by simp
  note r = baserate_no_freq[of ?db ex_path 1343955600000 1343955630000 None ?v ?iv]
  from r have c1: "query_baserate_timerange ?db ex_path None 1343955600000 1343955630000
                     (Some ''average'') None
                   = query_baserate_timerange ?db ex_path None 1343955600000 1343955630000
                     (Some ''delta'') None"
    by (rule conjunct1)
  from r[THEN conjunct2, rule_format, of "[''r1:ifIn:2012'']"] k rok
  have c2: "snd (query_baserate_timerange ?db ex_path None 1343955600000 1343955630000
                   (Some ''average'') None)
              = Inr [\<lparr>bd_ts = 1343955600000, bd_val = Finite 30000, bd_is_valid = 1\<rparr>]"
    unfolding sl by simp
  from c1 c2 show ?thesis by (rule conjI)
qed

text \<open>
  A stored \<open>val\<close> of \<open>2^53 + 1\<close> is not a double: it comes back as \<open>2^53\<close>.
\<close>

theorem baserate_no_freq_counterexample:
  "snd (query_baserate_timerange
      (ex_db\<lparr>rates := (\<lambda>k. if k = ''r1:ifIn:2012''
                            then [(1343955600000,
                                   [(''is_valid'', 1), (''val'', 9007199254740993)])]
                            else [])\<rparr>)
      ex_path None 1343955600000 1343955630000 (Some ''average'') None)
     = Inr [\<lparr>bd_ts = 1343955600000, bd_val = Finite 9007199254740992, bd_is_valid = 1\<rparr>]
   \<and> snd (query_baserate_timerange
      (ex_db\<lparr>rates := (\<lambda>k. if k = ''r1:ifIn:2012''
                            then [(1343955600000,
                                   [(''is_valid'', 1), (''val'', 9007199254740993)])]
                            else [])\<rparr>)
      ex_path None 1343955600000 1343955630000 (Some ''average'') None)
     \<noteq> Inr [\<lparr>bd_ts = 1343955600000, bd_val = Finite 9007199254740993, bd_is_valid = 1\<rparr>]"
proof -
  have k: "get_row_keys ex_path None 1343955600000 1343955630000 = Inr [''r1:ifIn:2012'']"
    by (simp add: get_row_keys_def utcfromtimestamp_ms_def dt_year_ex get_rowkey_def
          escape_path_def ex_path_def KEY_DELIMITER_def BACKSLASH_def str_replace_char
          str_int_2012)
  show ?thesis
    by (simp add: query_baserate_keys[OF k] column_limit_None multiget_count_def multiget_def
          row_slice_def baserate_datum_def subscript_def float_of_int_ex float_div_def
          round_double_ex)
qed

text \<open>
  C6. The insert of \<open>set_raw_data\<close> is not guarded: when the store raises
  \<open>MaximumRetryException\<close> the exception leaves \<open>set_raw_data\<close>. The same holds for the
  insert of \<open>update_stat_aggregation\<close>, here for a sample above the stored maximum of
  its bin.
\<close>

theorem retry_exhausted_propagates:
  "fst (set_raw_data db rd ttl (Some MaximumRetryException)) = Inl MaximumRetryException
   \<and> fst (update_stat_aggregation ex_db (ex_sample 500000) 1343952000000 (Some 86400000)
            (Some MaximumRetryException)) = Inl MaximumRetryException"
proof -
  have "get_rowkey ex_path (Some 86400000) (Some (dt_year 1343952000000))
          = ''r1:ifIn:86400000:2012''"
    by (simp add: dt_year_ex ex_keys)
  then have "fst (update_stat_aggregation ex_db (ex_sample 500000) 1343952000000 (Some 86400000)
            (Some MaximumRetryException)) = Inl MaximumRetryException"
    by (simp add: update_stat_aggregation_def AggregationBin_def utcfromtimestamp_ms_def
          dt_year_ex ex_sample_def get_agg_from_cache_def ab_get_key_def ts_to_jstime_def
          get_super_def ex_db_def subscript_def update_agg_cache_def stat_insert_def Let_def)
  then show ?thesis by (simp add: set_raw_data_def)
qed

text \<open>The two guarded inserts: the exception is logged and does not leave the method.\<close>

lemma update_rate_bin_swallows:
  "update_rate_bin db ratebin (Some MaximumRetryException)
     = (Inr (), db\<lparr>logged := logged db @ [''update_rate_bin failed. MaximumRetryException'']\<rparr>)"
  by (simp add: update_rate_bin_def)

lemma update_rate_aggregation_swallows:
  "utcfromtimestamp_ms agg_ts = Inr d \<Longrightarrow>
   update_rate_aggregation db rd agg_ts f (Some MaximumRetryException)
     = (Inr (), db\<lparr>logged := logged db @
          [''update_rate_aggregation failed. MaximumRetryException'']\<rparr>)"
  by (simp add: update_rate_aggregation_def AggregationBin_def)

text \<open>
  Whenever \<open>update_stat_aggregation\<close> inserts, an exception of the insert leaves it.
\<close>

lemma stat_insert_not_guarded:
  assumes "fst (update_stat_aggregation db rd agg_ts f None) = Inr True"
  shows "fst (update_stat_aggregation db rd agg_ts f (Some e)) = Inl e"
  using assms
  by (auto simp: update_stat_aggregation_def stat_insert_def Let_def
           split: sum.splits prod.splits if_splits)

section \<open>The aggregation cache\<close>

lemma single_entry: "length e \<le> 1 \<Longrightarrow> map_of e b = Some d \<Longrightarrow> e = [(b, d)]"
  by (cases e) (auto split: if_splits)

lemma truthy_dict_iff: "truthy_dict x \<longleftrightarrow> (\<exists>d. x = Some d \<and> d \<noteq> [])"
  by (cases x) simp_all

lemma get_agg_other:
  "k \<noteq> ab_get_key agg \<Longrightarrow>
     aggregation_cache (snd (get_agg_from_cache db agg rd)) k = aggregation_cache db k"
  by (auto simp: get_agg_from_cache_def Let_def split: sum.splits)

lemma get_agg_key_cases:
  "(fst (get_agg_from_cache db agg rd) = None \<and>
      aggregation_cache (snd (get_agg_from_cache db agg rd)) (ab_get_key agg)
        = Some [(ts_to_jstime (ab_ts agg),
                 [(''min'', ab_val agg), (''max'', ab_val agg),
                  (''min_ts'', ts_to_jstime (rd_ts rd)),
                  (''max_ts'', ts_to_jstime (rd_ts rd))])])
   \<or> (\<exists>e d. d \<noteq> [] \<and> fst (get_agg_from_cache db agg rd) = Some d \<and>
        aggregation_cache (snd (get_agg_from_cache db agg rd)) (ab_get_key agg) = Some e \<and>
        map_of e (ts_to_jstime (ab_ts agg)) = Some d \<and>
        (aggregation_cache db (ab_get_key agg) = Some e
         \<or> e = [(ts_to_jstime (ab_ts agg), d)]))"
  by (cases "aggregation_cache db (ab_get_key agg)";
      cases "get_super (stat_agg db) (ab_get_key agg) (ts_to_jstime (ab_ts agg))")
     (auto simp: get_agg_from_cache_def Let_def truthy_dict_iff split: option.splits if_splits)


lemma get_agg_one_bin:
  assumes "one_bin db"
  shows "\<exists>d. aggregation_cache (snd (get_agg_from_cache db agg rd)) (ab_get_key agg)
           = Some [(ts_to_jstime (ab_ts agg), d)]"
  using get_agg_key_cases[of db agg rd]
proof
  assume "fst (get_agg_from_cache db agg rd) = None \<and>
      aggregation_cache (snd (get_agg_from_cache db agg rd)) (ab_get_key agg)
        = Some [(ts_to_jstime (ab_ts agg),
                 [(''min'', ab_val agg), (''max'', ab_val agg),
                  (''min_ts'', ts_to_jstime (rd_ts rd)),
                  (''max_ts'', ts_to_jstime (rd_ts rd))])]"
  then show ?thesis by blast
next
  assume "\<exists>e d. d \<noteq> [] \<and> fst (get_agg_from_cache db agg rd) = Some d \<and>
        aggregation_cache (snd (get_agg_from_cache db agg rd)) (ab_get_key agg) = Some e \<and>
        map_of e (ts_to_jstime (ab_ts agg)) = Some d \<and>
        (aggregation_cache db (ab_get_key agg) = Some e
         \<or> e = [(ts_to_jstime (ab_ts agg), d)])"
  then obtain e d
    where c: "aggregation_cache (snd (get_agg_from_cache db agg rd)) (ab_get_key agg) = Some e"
    and m: "map_of e (ts_to_jstime (ab_ts agg)) = Some d"
    and o: "aggregation_cache db (ab_get_key agg) = Some e \<or> e = [(ts_to_jstime (ab_ts agg), d)]"
    by blast
  from o have "e = [(ts_to_jstime (ab_ts agg), d)]"
  proof
    assume "aggregation_cache db (ab_get_key agg) = Some e"
    with assms have "length e \<le> 1" by (auto simp: one_bin_def)
    then show ?thesis using m by (rule single_entry)
  qed
  with c show ?thesis by blast
qed

lemma get_agg_preserves:
  assumes "one_bin db"
  shows "one_bin (snd (get_agg_from_cache db agg rd))"
  unfolding one_bin_def
proof (intro allI impI)
  fix k e
  assume h: "aggregation_cache (snd (get_agg_from_cache db agg rd)) k = Some e"
  show "length e \<le> 1"
  proof (cases "k = ab_get_key agg")
    case True
    with h get_agg_one_bin[OF assms, of agg rd] show ?thesis by auto
  next
    case False
    with h assms show ?thesis by (auto simp: get_agg_other one_bin_def)
  qed
qed

lemma stat_insert_cache:
  "aggregation_cache (snd (stat_insert db k c fl ins)) = aggregation_cache db"
  by (simp add: stat_insert_def split: option.splits)

lemma update_agg_cache_single:
  assumes "aggregation_cache db (ab_get_key agg) = Some [(ts_to_jstime (ab_ts agg), d)]"
    and "mm = ''min'' \<or> mm = ''max''"
  shows "update_agg_cache db agg rd mm
           = (Inr (), db\<lparr>aggregation_cache := (aggregation_cache db)
                (ab_get_key agg \<mapsto>
                   [(ts_to_jstime (ab_ts agg),
                     AList.update (mm @ ''_ts'') (ts_to_jstime (rd_ts rd))
                       (AList.update mm (ab_val agg) d))])\<rparr>)"
  using assms by (auto simp: update_agg_cache_def Let_def)

lemma update_stat_cache:
  assumes inv: "one_bin db" and valid: "utcfromtimestamp_ms agg_ts = Inr agg_ts"
    and key: "key = get_rowkey (rd_path rd) f (Some (dt_year agg_ts))"
    and bin: "bin = ts_to_jstime agg_ts"
  shows "(\<exists>d. aggregation_cache (snd (update_stat_aggregation db rd agg_ts f ins)) key
                = Some [(bin, d)])
       \<and> (\<forall>k. k \<noteq> key \<longrightarrow>
             aggregation_cache (snd (update_stat_aggregation db rd agg_ts f ins)) k
               = aggregation_cache db k)"
proof -
  let ?agg = "\<lparr>ab_path = rd_path rd, ab_ts = agg_ts, ab_val = rd_val rd, ab_freq = f,
               ab_base_freq = rd_freq rd, ab_count = Some 1, ab_min = Some (rd_val rd),
               ab_max = Some (rd_val rd), ab_cf = None\<rparr>"
  have ab: "AggregationBin (rd_path rd) agg_ts (rd_val rd) f (rd_freq rd) (Some 1)
             (Some (rd_val rd)) (Some (rd_val rd)) None = Inr ?agg"
    using valid by (simp add: AggregationBin_def)
  have k: "ab_get_key ?agg = key" "ts_to_jstime agg_ts = bin"
    by (simp_all add: ab_get_key_def key bin)
  obtain ret db1 where g: "get_agg_from_cache db ?agg rd = (ret, db1)" by force
  from get_agg_one_bin[OF inv, of ?agg rd] obtain d1
    where c1: "aggregation_cache db1 key = Some [(bin, d1)]"
    by (auto simp: g k)
  have o1: "k' \<noteq> key \<Longrightarrow> aggregation_cache db1 k' = aggregation_cache db k'" for k'
    using get_agg_other[of k' ?agg db rd] by (simp add: g k)
  have u: "update_agg_cache db1 ?agg rd mm
           = (Inr (), db1\<lparr>aggregation_cache := (aggregation_cache db1)
                (key \<mapsto> [(bin, AList.update (mm @ ''_ts'') (ts_to_jstime (rd_ts rd))
                                  (AList.update mm (rd_val rd) d1))])\<rparr>)"
    if "mm = ''min'' \<or> mm = ''max''" for mm
    using update_agg_cache_single[of db1 ?agg d1 mm rd] c1 that by (simp add: k)
  show ?thesis
    unfolding update_stat_aggregation_def ab
    using c1 o1
    by (auto simp: g k u stat_insert_cache Let_def split: sum.splits)
qed

lemma update_stat_preserves:
  assumes "one_bin db"
  shows "one_bin (snd (update_stat_aggregation db rd agg_ts f ins))"
proof (cases "utcfromtimestamp_ms agg_ts")
  case (Inl e)
  then show ?thesis using assms by (simp add: update_stat_aggregation_def AggregationBin_def)
next
  case (Inr d)
  then have valid: "utcfromtimestamp_ms agg_ts = Inr agg_ts"
    by (simp add: utcfromtimestamp_ms_def split: if_splits)
  let ?key = "get_rowkey (rd_path rd) f (Some (dt_year agg_ts))"
  note u = update_stat_cache[OF assms valid refl refl, of rd f ins]
  show ?thesis
    unfolding one_bin_def
  proof (intro allI impI)
    fix k e
    assume h: "aggregation_cache (snd (update_stat_aggregation db rd agg_ts f ins)) k = Some e"
    show "length e \<le> 1"
    proof (cases "k = ?key")
      case True
      with h u show ?thesis by auto
    next
      case False
      with h u assms show ?thesis by (auto simp: one_bin_def)
    qed
  qed
qed

lemma reachable_one_bin: "reachable db \<Longrightarrow> one_bin db"
proof (induction rule: reachable.induct)
  case (init db)
  then show ?case by (simp add: one_bin_def)
next
  case (get db agg rd)
  then show ?case by (simp add: get_agg_preserves)
next
  case (update db rd agg_ts f ins)
  then show ?case by (simp add: update_stat_preserves)
next
  case (other db db')
  then show ?case by (simp add: one_bin_def)
qed

section \<open>Claim C2: the write policy of the stat rollup\<close>

text \<open>
  C2. A call of \<open>update_stat_aggregation\<close> whose insert is accepted, for a sample of value
  \<open>val\<close> in the bin \<open>bin\<close> of the row \<open>key\<close>. If the cache holds an entry for the bin with
  \<open>min\<close> and \<open>max\<close>: when \<open>val > max\<close> exactly \<open>max\<close> and \<open>max_ts\<close> are inserted and set in
  the cache; otherwise when \<open>val < min\<close> exactly \<open>min\<close> and \<open>min_ts\<close> are inserted and set in
  the cache; otherwise nothing is inserted and the state stays as it is. If the cache
  holds other bins of the row only, or holds nothing for the row and the store has no
  column for the bin, all four fields are inserted from the sample and the cache holds
  this bin only. If the cache holds nothing for the row and the store has the column of
  the bin, the cache is seeded with the stored column and the sample is compared with
  the stored \<open>min\<close> and \<open>max\<close> in the same way.
\<close>

theorem stat_rollup_write_policy:
  assumes valid: "utcfromtimestamp_ms agg_ts = Inr agg_ts"
    and key: "key = get_rowkey (rd_path rd) f (Some (dt_year agg_ts))"
    and bin: "bin = ts_to_jstime agg_ts"
    and jst: "jst = ts_to_jstime (rd_ts rd)"
    and seeded: "seeded = [(''min'', rd_val rd), (''max'', rd_val rd),
                           (''min_ts'', jst), (''max_ts'', jst)]"
  shows "(\<forall>entry d mx mn.
            aggregation_cache db key = Some entry \<and> map_of entry bin = Some d
            \<and> map_of d ''max'' = Some mx \<and> map_of d ''min'' = Some mn \<longrightarrow>
            update_stat_aggregation db rd agg_ts f None =
              (if rd_val rd > mx then
                 (Inr True,
                  db\<lparr>aggregation_cache := (aggregation_cache db)
                        (key \<mapsto> AList.update bin
                           (AList.update ''max_ts'' jst (AList.update ''max'' (rd_val rd) d))
                           entry),
                     batch := batch db @
                        [SuperInsert StatCF key bin [(''max'', rd_val rd), (''max_ts'', jst)]]\<rparr>)
               else if rd_val rd < mn then
                 (Inr True,
                  db\<lparr>aggregation_cache := (aggregation_cache db)
                        (key \<mapsto> AList.update bin
                           (AList.update ''min_ts'' jst (AList.update ''min'' (rd_val rd) d))
                           entry),
                     batch := batch db @
                        [SuperInsert StatCF key bin [(''min'', rd_val rd), (''min_ts'', jst)]]\<rparr>)
               else (Inr False, db)))
       \<and> (\<forall>entry.
            aggregation_cache db key = Some entry \<and> entry \<noteq> []
            \<and> \<not> truthy_dict (map_of entry bin) \<longrightarrow>
            update_stat_aggregation db rd agg_ts f None =
              (Inr True,
               db\<lparr>aggregation_cache := (aggregation_cache db)(key \<mapsto> [(bin, seeded)]),
                  batch := batch db @ [SuperInsert StatCF key bin seeded]\<rparr>))
       \<and> (\<not> truthy_dict (aggregation_cache db key)
            \<and> get_super (stat_agg db) key bin = Inl NotFoundException \<longrightarrow>
            update_stat_aggregation db rd agg_ts f None =
              (Inr True,
               db\<lparr>aggregation_cache := (aggregation_cache db)(key \<mapsto> [(bin, seeded)]),
                  batch := batch db @ [SuperInsert StatCF key bin seeded]\<rparr>))
       \<and> (\<forall>d mx mn.
            \<not> truthy_dict (aggregation_cache db key)
            \<and> get_super (stat_agg db) key bin = Inr d
            \<and> map_of d ''max'' = Some mx \<and> map_of d ''min'' = Some mn \<longrightarrow>
            update_stat_aggregation db rd agg_ts f None =
              (if rd_val rd > mx then
                 (Inr True,
                  db\<lparr>aggregation_cache := (aggregation_cache db)
                        (key \<mapsto> [(bin, AList.update ''max_ts'' jst
                                          (AList.update ''max'' (rd_val rd) d))]),
                     batch := batch db @
                        [SuperInsert StatCF key bin [(''max'', rd_val rd), (''max_ts'', jst)]]\<rparr>)
               else if rd_val rd < mn then
                 (Inr True,
                  db\<lparr>aggregation_cache := (aggregation_cache db)
                        (key \<mapsto> [(bin, AList.update ''min_ts'' jst
                                          (AList.update ''min'' (rd_val rd) d))]),
                     batch := batch db @
                        [SuperInsert StatCF key bin [(''min'', rd_val rd), (''min_ts'', jst)]]\<rparr>)
               else (Inr False,
                     db\<lparr>aggregation_cache := (aggregation_cache db)(key \<mapsto> [(bin, d)])\<rparr>)))"
proof -
  have ab: "AggregationBin (rd_path rd) agg_ts (rd_val rd) f (rd_freq rd) (Some 1)
             (Some (rd_val rd)) (Some (rd_val rd)) None
            = Inr \<lparr>ab_path = rd_path rd, ab_ts = agg_ts, ab_val = rd_val rd, ab_freq = f,
                   ab_base_freq = rd_freq rd, ab_count = Some 1, ab_min = Some (rd_val rd),
                   ab_max = Some (rd_val rd), ab_cf = None\<rparr>"
    using valid by (simp add: AggregationBin_def)
  note defs = update_stat_aggregation_def ab get_agg_from_cache_def ab_get_key_def
    update_agg_cache_def stat_insert_def subscript_def Let_def key bin jst seeded
  have held: "update_stat_aggregation db rd agg_ts f None =
              (if rd_val rd > mx then
                 (Inr True,
                  db\<lparr>aggregation_cache := (aggregation_cache db)
                        (key \<mapsto> AList.update bin
                           (AList.update ''max_ts'' jst (AList.update ''max'' (rd_val rd) d))
                           entry),
                     batch := batch db @
                        [SuperInsert StatCF key bin [(''max'', rd_val rd), (''max_ts'', jst)]]\<rparr>)
               else if rd_val rd < mn then
                 (Inr True,
                  db\<lparr>aggregation_cache := (aggregation_cache db)
                        (key \<mapsto> AList.update bin
                           (AList.update ''min_ts'' jst (AList.update ''min'' (rd_val rd) d))
                           entry),
                     batch := batch db @
                        [SuperInsert StatCF key bin [(''min'', rd_val rd), (''min_ts'', jst)]]\<rparr>)
               else (Inr False, db))"
    if "aggregation_cache db key = Some entry" "map_of entry bin = Some d"
       "map_of d ''max'' = Some mx" "map_of d ''min'' = Some mn" for entry d mx mn
  proof -
    from that have "entry \<noteq> []" "d \<noteq> []" by auto
    with that show ?thesis unfolding defs by (auto simp: key bin)
  qed
  have rollover: "update_stat_aggregation db rd agg_ts f None =
              (Inr True,
               db\<lparr>aggregation_cache := (aggregation_cache db)(key \<mapsto> [(bin, seeded)]),
                  batch := batch db @ [SuperInsert StatCF key bin seeded]\<rparr>)"
    if "aggregation_cache db key = Some entry" "entry \<noteq> []"
       "\<not> truthy_dict (map_of entry bin)" for entry
    using that unfolding defs by (auto simp: key bin)
  have fresh: "update_stat_aggregation db rd agg_ts f None =
              (Inr True,
               db\<lparr>aggregation_cache := (aggregation_cache db)(key \<mapsto> [(bin, seeded)]),
                  batch := batch db @ [SuperInsert StatCF key bin seeded]\<rparr>)"
    if "\<not> truthy_dict (aggregation_cache db key)"
       "get_super (stat_agg db) key bin = Inl NotFoundException"
    using that unfolding defs by (auto simp: key bin)
  have restart: "update_stat_aggregation db rd agg_ts f None =
              (if rd_val rd > mx then
                 (Inr True,
                  db\<lparr>aggregation_cache := (aggregation_cache db)
                        (key \<mapsto> [(bin, AList.update ''max_ts'' jst
                                          (AList.update ''max'' (rd_val rd) d))]),
                     batch := batch db @
                        [SuperInsert StatCF key bin [(''max'', rd_val rd), (''max_ts'', jst)]]\<rparr>)
               else if rd_val rd < mn then
                 (Inr True,
                  db\<lparr>aggregation_cache := (aggregation_cache db)
                        (key \<mapsto> [(bin, AList.update ''min_ts'' jst
                                          (AList.update ''min'' (rd_val rd) d))]),
                     batch := batch db @
                        [SuperInsert StatCF key bin [(''min'', rd_val rd), (''min_ts'', jst)]]\<rparr>)
               else (Inr False,
                     db\<lparr>aggregation_cache := (aggregation_cache db)(key \<mapsto> [(bin, d)])\<rparr>))"
    if "\<not> truthy_dict (aggregation_cache db key)" "get_super (stat_agg db) key bin = Inr d"
       "map_of d ''max'' = Some mx" "map_of d ''min'' = Some mn" for d mx mn
  proof -
    from that have "d \<noteq> []" by auto
    with that show ?thesis unfolding defs by (auto simp: key bin)
  qed
  from held rollover fresh restart show ?thesis by blast
qed

lemma ex_sample_jst: "ts_to_jstime (rd_ts (ex_sample x)) = 1343955660000"
  by (simp add: ex_sample_def ts_to_jstime_def)

lemma ex_valid: "utcfromtimestamp_ms 1343952000000 = Inr 1343952000000"
  "utcfromtimestamp_ms 1343955600000 = Inr 1343955600000"
  by (simp_all add: utcfromtimestamp_ms_def dt_year_ex)

lemma ex_stat_key:
  "''r1:ifIn:86400000:2012''
     = get_rowkey (rd_path (ex_sample x)) (Some 86400000) (Some (dt_year 1343952000000))"
  "''r1:ifIn:3600000:2012''
     = get_rowkey (rd_path (ex_sample x)) (Some 3600000) (Some (dt_year 1343955600000))"
  by (simp_all add: ex_sample_def dt_year_ex ex_keys)

lemma ex_bins: "1343952000000 = ts_to_jstime 1343952000000"
  "1343955600000 = ts_to_jstime 1343955600000"
  by (simp_all add: ts_to_jstime_def)

theorem stat_rollup_write_policy_witness:
  "update_stat_aggregation
     (ex_db\<lparr>aggregation_cache :=
        [''r1:ifIn:86400000:2012'' \<mapsto>
           [(1343952000000, [(''min'', 10), (''max'', 100),
                             (''min_ts'', 1343952030000), (''max_ts'', 1343952030000)])]]\<rparr>)
     (ex_sample 500) 1343952000000 (Some 86400000) None
   = (Inr True,
      ex_db\<lparr>aggregation_cache :=
         [''r1:ifIn:86400000:2012'' \<mapsto>
            [(1343952000000, [(''min'', 10), (''max'', 500),
                              (''min_ts'', 1343952030000), (''max_ts'', 1343955660000)])]],
        batch := [SuperInsert StatCF ''r1:ifIn:86400000:2012'' 1343952000000
                    [(''max'', 500), (''max_ts'', 1343955660000)]]\<rparr>)
   \<and> update_stat_aggregation ex_db (ex_sample 500) 1343955600000 (Some 3600000) None
   = (Inr True,
      ex_db\<lparr>aggregation_cache :=
         [''r1:ifIn:3600000:2012'' \<mapsto>
            [(1343955600000, [(''min'', 500), (''max'', 500),
                              (''min_ts'', 1343955660000), (''max_ts'', 1343955660000)])]],
        batch := [SuperInsert StatCF ''r1:ifIn:3600000:2012'' 1343955600000
                    [(''min'', 500), (''max'', 500),
                     (''min_ts'', 1343955660000), (''max_ts'', 1343955660000)]]\<rparr>)"
proof -
  let ?d = "[(''min'', 10), (''max'', 100),
             (''min_ts'', 1343952030000), (''max_ts'', 1343952030000)] :: subcols"
  let ?db = "ex_db\<lparr>aggregation_cache :=
               [''r1:ifIn:86400000:2012'' \<mapsto> [(1343952000000, ?d)]]\<rparr>"
  note a = stat_rollup_write_policy[OF ex_valid(1) ex_stat_key(1)[of 500] ex_bins(1)
      ex_sample_jst[of 500, symmetric] refl, where db = "?db", THEN conjunct1, rule_format,
      where entry = "[(1343952000000, ?d)]" and d = "?d" and mx = 100 and mn = 10]
  have c1: "update_stat_aggregation ?db (ex_sample 500) 1343952000000 (Some 86400000) None
   = (Inr True,
      ex_db\<lparr>aggregation_cache :=
         [''r1:ifIn:86400000:2012'' \<mapsto>
            [(1343952000000, [(''min'', 10), (''max'', 500),
                              (''min_ts'', 1343952030000), (''max_ts'', 1343955660000)])]],
        batch := [SuperInsert StatCF ''r1:ifIn:86400000:2012'' 1343952000000
                    [(''max'', 500), (''max_ts'', 1343955660000)]]\<rparr>)"
    using a by (simp add: ex_sample_def ex_db_def)
  note b = stat_rollup_write_policy[OF ex_valid(2) ex_stat_key(2)[of 500] ex_bins(2)
      ex_sample_jst[of 500, symmetric] refl, where db = ex_db, THEN conjunct2, THEN conjunct2,
      THEN conjunct1, rule_format]
  have c2: "update_stat_aggregation ex_db (ex_sample 500) 1343955600000 (Some 3600000) None
   = (Inr True,
      ex_db\<lparr>aggregation_cache :=
         [''r1:ifIn:3600000:2012'' \<mapsto>
            [(1343955600000, [(''min'', 500), (''max'', 500),
                              (''min_ts'', 1343955660000), (''max_ts'', 1343955660000)])]],
        batch := [SuperInsert StatCF ''r1:ifIn:3600000:2012'' 1343955600000
                    [(''min'', 500), (''max'', 500),
                     (''min_ts'', 1343955660000), (''max_ts'', 1343955660000)]]\<rparr>)"
    using b by (simp add: ex_sample_def ex_db_def get_super_def)
  from c1 c2 show ?thesis by (rule conjI)
qed

text \<open>
  After a restart the cache holds nothing for the row, the bin is read from the store,
  and a sample between the stored \<open>min\<close> and \<open>max\<close> is not written at all.
\<close>

theorem stat_rollup_write_policy_counterexample:
  "aggregation_cache ex_db ''r1:ifIn:86400000:2012'' = None
   \<and> fst (update_stat_aggregation ex_db (ex_sample 50) 1343952000000 (Some 86400000) None)
       = Inr False
   \<and> batch (snd (update_stat_aggregation ex_db (ex_sample 50) 1343952000000 (Some 86400000)
                   None)) = []"
proof -
  have "get_rowkey ex_path (Some 86400000) (Some (dt_year 1343952000000))
          = ''r1:ifIn:86400000:2012''"
    by (simp add: dt_year_ex ex_keys)
  then show ?thesis
    by (simp add: update_stat_aggregation_def AggregationBin_def utcfromtimestamp_ms_def
          dt_year_ex ex_sample_def get_agg_from_cache_def ab_get_key_def ts_to_jstime_def
          get_super_def ex_db_def subscript_def Let_def)
qed

section \<open>Claim C9: one bin for every series in the aggregation cache\<close>

text \<open>
  C9. In every state that a \<open>CASSANDRA_DB\<close> object can reach, after
  \<open>get_agg_from_cache\<close>, and after \<open>update_stat_aggregation\<close> for a valid bin timestamp,
  the cache entry of the row key of the call holds exactly one bin, the bin of the call,
  and every row key of the cache holds at most one bin. When the cache holds bins of the
  row but not the bin of the call, the entry of the row is replaced by one that holds
  only the new bin, seeded from the sample.
\<close>

theorem aggregation_cache_one_bin:
  assumes "reachable db"
  shows "(\<exists>d. aggregation_cache (snd (get_agg_from_cache db agg rd)) (ab_get_key agg)
               = Some [(ts_to_jstime (ab_ts agg), d)])
       \<and> one_bin (snd (get_agg_from_cache db agg rd))
       \<and> (utcfromtimestamp_ms agg_ts = Inr agg_ts \<longrightarrow>
            (\<exists>d. aggregation_cache (snd (update_stat_aggregation db rd2 agg_ts f ins))
                   (get_rowkey (rd_path rd2) f (Some (dt_year agg_ts)))
                 = Some [(ts_to_jstime agg_ts, d)]))
       \<and> one_bin (snd (update_stat_aggregation db rd2 agg_ts f ins))
       \<and> (\<forall>entry. aggregation_cache db (ab_get_key agg) = Some entry \<and> entry \<noteq> []
              \<and> map_of entry (ts_to_jstime (ab_ts agg)) = None \<longrightarrow>
            aggregation_cache (snd (get_agg_from_cache db agg rd)) (ab_get_key agg)
              = Some [(ts_to_jstime (ab_ts agg),
                       [(''min'', ab_val agg), (''max'', ab_val agg),
                        (''min_ts'', ts_to_jstime (rd_ts rd)),
                        (''max_ts'', ts_to_jstime (rd_ts rd))])])"
proof -
  from assms have inv: "one_bin db" by (rule reachable_one_bin)
  have g: "\<exists>d. aggregation_cache (snd (get_agg_from_cache db agg rd)) (ab_get_key agg)
               = Some [(ts_to_jstime (ab_ts agg), d)]"
    using inv by (rule get_agg_one_bin)
  have gi: "one_bin (snd (get_agg_from_cache db agg rd))"
    using inv by (rule get_agg_preserves)
  have u: "\<exists>d. aggregation_cache (snd (update_stat_aggregation db rd2 agg_ts f ins))
                   (get_rowkey (rd_path rd2) f (Some (dt_year agg_ts)))
                 = Some [(ts_to_jstime agg_ts, d)]"
    if "utcfromtimestamp_ms agg_ts = Inr agg_ts"
    using update_stat_cache[OF inv that refl refl, of rd2 f ins] by blast
  have ui: "one_bin (snd (update_stat_aggregation db rd2 agg_ts f ins))"
    using inv by (rule update_stat_preserves)
  have r: "aggregation_cache (snd (get_agg_from_cache db agg rd)) (ab_get_key agg)
              = Some [(ts_to_jstime (ab_ts agg),
                       [(''min'', ab_val agg), (''max'', ab_val agg),
                        (''min_ts'', ts_to_jstime (rd_ts rd)),
                        (''max_ts'', ts_to_jstime (rd_ts rd))])]"
    if "aggregation_cache db (ab_get_key agg) = Some entry" "entry \<noteq> []"
       "map_of entry (ts_to_jstime (ab_ts agg)) = None" for entry
    using that by (simp add: get_agg_from_cache_def Let_def)
  from g gi u ui r show ?thesis by blast
qed

lemma ex_agg_key:
  "ab_get_key (ex_agg 1343952000000 x) = ''r1:ifIn:86400000:2012''"
  "ab_get_key (ex_agg 1344038400000 x) = ''r1:ifIn:86400000:2012''"
  by (simp_all add: ab_get_key_def ex_agg_def ex_keys dt_year_def ord_to_year_def Let_def)

lemma ex_reachable: "reachable ex_db"
  by (rule reachable.init) (simp add: ex_db_def)

lemma ex_restart_cache:
  "aggregation_cache (snd (get_agg_from_cache ex_db (ex_agg 1343952000000 50) (ex_sample 50)))
      ''r1:ifIn:86400000:2012''
     = Some [(1343952000000, [(''max'', 484140), (''max_ts'', 1343955600000),
                              (''min'', 0), (''min_ts'', 1343955630000)])]"
  by (simp add: get_agg_from_cache_def ex_agg_key Let_def)
     (simp add: ex_db_def get_super_def ex_agg_def ts_to_jstime_def)

theorem aggregation_cache_one_bin_witness:
  "(\<exists>d. aggregation_cache
           (snd (get_agg_from_cache ex_db (ex_agg 1343952000000 50) (ex_sample 50)))
           ''r1:ifIn:86400000:2012''
         = Some [(1343952000000, d)])
   \<and> one_bin (snd (get_agg_from_cache ex_db (ex_agg 1343952000000 50) (ex_sample 50)))
   \<and> (\<exists>d. aggregation_cache
             (snd (update_stat_aggregation ex_db (ex_sample 50) 1343952000000
                     (Some 86400000) None))
             ''r1:ifIn:86400000:2012''
           = Some [(1343952000000, d)])
   \<and> one_bin (snd (update_stat_aggregation ex_db (ex_sample 50) 1343952000000
                      (Some 86400000) None))
   \<and> aggregation_cache
        (snd (get_agg_from_cache
                (snd (get_agg_from_cache ex_db (ex_agg 1343952000000 50) (ex_sample 50)))
                (ex_agg 1344038400000 70) (ex_sample 70)))
        ''r1:ifIn:86400000:2012''
      = Some [(1344038400000, [(''min'', 70), (''max'', 70),
                               (''min_ts'', 1343955660000), (''max_ts'', 1343955660000)])]"
proof -
  let ?db1 = "snd (get_agg_from_cache ex_db (ex_agg 1343952000000 50) (ex_sample 50))"
  note a = aggregation_cache_one_bin[OF ex_reachable,
      of "ex_agg 1343952000000 50" "ex_sample 50" 1343952000000 "ex_sample 50"
         "Some 86400000" None]
  have r1: "reachable ?db1" using ex_reachable by (rule reachable.get)
  note b = aggregation_cache_one_bin[OF r1,
      of "ex_agg 1344038400000 70" "ex_sample 70", THEN conjunct2,
      THEN conjunct2, THEN conjunct2, THEN conjunct2, rule_format,
      where entry = "[(1343952000000, [(''max'', 484140), (''max_ts'', 1343955600000),
                              (''min'', 0), (''min_ts'', 1343955630000)])]"]
  have c5: "aggregation_cache (snd (get_agg_from_cache ?db1 (ex_agg 1344038400000 70)
                 (ex_sample 70))) ''r1:ifIn:86400000:2012''
      = Some [(1344038400000, [(''min'', 70), (''max'', 70),
                               (''min_ts'', 1343955660000), (''max_ts'', 1343955660000)])]"
    using b by (simp add: ex_agg_key ex_restart_cache)
       (simp add: ex_agg_def ex_sample_def ts_to_jstime_def)
  from a have c14: "(\<exists>d. aggregation_cache ?db1 ''r1:ifIn:86400000:2012''
         = Some [(1343952000000, d)])
   \<and> one_bin ?db1
   \<and> (\<exists>d. aggregation_cache
             (snd (update_stat_aggregation ex_db (ex_sample 50) 1343952000000
                     (Some 86400000) None))
             ''r1:ifIn:86400000:2012''
           = Some [(1343952000000, d)])
   \<and> one_bin (snd (update_stat_aggregation ex_db (ex_sample 50) 1343952000000
                      (Some 86400000) None))"
    using ex_valid(1) ex_stat_key(1)[of 50, symmetric]
    by (simp add: ex_agg_key) (simp add: ex_agg_def ts_to_jstime_def)
  from c14 c5 show ?thesis by simp
qed

section \<open>The calendar year is monotone\<close>

lemma lex_mono:
  fixes a b m c :: int and g :: "int \<Rightarrow> int"
  assumes m: "0 < m" and ab: "a \<le> b"
    and mono: "\<And>x y. 0 \<le> x \<Longrightarrow> x \<le> y \<Longrightarrow> y < m \<Longrightarrow> g x \<le> g y"
    and range: "\<And>x. 0 \<le> x \<Longrightarrow> x < m \<Longrightarrow> 0 \<le> g x \<and> g x < c"
  shows "c * (a div m) + g (a mod m) \<le> c * (b div m) + g (b mod m)"
proof -
  have ra: "0 \<le> a mod m" "a mod m < m" and rb: "0 \<le> b mod m" "b mod m < m"
    using m by simp_all
  have dv: "a div m \<le> b div m" using ab m by (rule zdiv_mono1)
  show ?thesis
  proof (cases "a div m = b div m")
    case True
    have "a = m * (a div m) + a mod m" "b = m * (b div m) + b mod m" by simp_all
    with True ab have "a mod m \<le> b mod m" by (metis add_le_cancel_left)
    then have "g (a mod m) \<le> g (b mod m)" using ra rb by (intro mono)
    with True show ?thesis by simp
  next
    case False
    with dv have "a div m + 1 \<le> b div m" by simp
    moreover have c0: "0 \<le> c" using range[OF ra] by simp
    ultimately have "c * (a div m + 1) \<le> c * (b div m)" by (intro mult_left_mono)
    moreover have "g (a mod m) < c" using range[OF ra] by simp
    moreover have "0 \<le> g (b mod m)" using range[OF rb] by simp
    ultimately show ?thesis by (simp add: algebra_simps)
  qed
qed

lemma y1_mono: "x \<le> y \<Longrightarrow> y1 x \<le> y1 y"
  unfolding y1_def using zdiv_mono1[of x y 365] by simp

lemma y1_range: "0 \<le> x \<Longrightarrow> 0 \<le> y1 x \<and> y1 x < 4"
  unfolding y1_def by (simp add: pos_imp_zdiv_nonneg_iff)

lemma y4_mono: "x \<le> y \<Longrightarrow> y4 x \<le> y4 y"
  unfolding y4_def by (rule lex_mono) (simp_all add: y1_mono y1_range)

lemma y4_range:
  assumes "0 \<le> x" "x < 36524"
  shows "0 \<le> y4 x \<and> y4 x < 100"
proof -
  have "x div 1461 \<le> 36523 div 1461" using assms by (intro zdiv_mono1) simp_all
  then have "x div 1461 \<le> 24" by simp
  moreover have "0 \<le> x div 1461" using assms by (simp add: pos_imp_zdiv_nonneg_iff)
  moreover have "0 \<le> y1 (x mod 1461) \<and> y1 (x mod 1461) < 4" by (rule y1_range) simp
  ultimately show ?thesis unfolding y4_def by simp
qed

lemma y100_lex:
  "x \<le> y \<Longrightarrow>
     100 * (x div 36524) + y4 (x mod 36524) \<le> 100 * (y div 36524) + y4 (y mod 36524)"
  by (rule lex_mono) (simp_all add: y4_mono y4_range)

lemma y100_mono: "x \<le> y \<Longrightarrow> y100 x \<le> y100 y"
  unfolding y100_def using y100_lex[of x y] by simp

lemma y100_range:
  assumes "0 \<le> x"
  shows "0 \<le> y100 x \<and> y100 x < 400"
proof -
  have "0 \<le> x div 36524" using assms by (simp add: pos_imp_zdiv_nonneg_iff)
  moreover have "0 \<le> y4 (x mod 36524)" using y4_range[of "x mod 36524"] by simp
  ultimately show ?thesis unfolding y100_def by simp
qed

lemma ord_to_year_cycles:
  "ord_to_year ordinal
     = 1 + (400 * ((ordinal - 1) div 146097) + y100 ((ordinal - 1) mod 146097))"
proof -
  define r where "r = (ordinal - 1) mod 146097"
  define n100 where "n100 = r div 36524"
  define r2 where "r2 = r mod 36524"
  define n4 where "n4 = r2 div 1461"
  define r3 where "r3 = r2 mod 1461"
  define n1 where "n1 = r3 div 365"
  have r: "0 \<le> r" "r < 146097" by (simp_all add: r_def)
  have r2: "0 \<le> r2" "r2 < 36524" "r = 36524 * n100 + r2" by (simp_all add: r2_def n100_def)
  have r3: "0 \<le> r3" "r3 < 1461" "r2 = 1461 * n4 + r3" by (simp_all add: r3_def n4_def)
  have n100: "0 \<le> n100" using r by (simp add: n100_def pos_imp_zdiv_nonneg_iff)
  have n4: "0 \<le> n4" using r2 by (simp add: n4_def pos_imp_zdiv_nonneg_iff)
  have "r3 div 365 \<le> 1460 div 365" using r3 by (intro zdiv_mono1) simp_all
  then have n1: "0 \<le> n1" "n1 \<le> 4" using r3 by (simp_all add: n1_def pos_imp_zdiv_nonneg_iff)
  have "r2 div 1461 \<le> 36523 div 1461" using r2 by (intro zdiv_mono1) simp_all
  then have n4': "n4 \<le> 24" by (simp add: n4_def)
  have "r div 36524 \<le> 146096 div 36524" using r by (intro zdiv_mono1) simp_all
  then have n100': "n100 \<le> 4" by (simp add: n100_def)
  have code: "ord_to_year ordinal
      = (if n1 = 4 \<or> n100 = 4
         then ((ordinal - 1) div 146097) * 400 + 1 + n100 * 100 + n4 * 4 + n1 - 1
         else ((ordinal - 1) div 146097) * 400 + 1 + n100 * 100 + n4 * 4 + n1)"
    by (simp add: ord_to_year_def Let_def n1_def r3_def n4_def r2_def n100_def r_def)
  have cyc: "y100 r = min (100 * n100 + (4 * n4 + min n1 3)) 399"
    by (simp add: y100_def y4_def y1_def n1_def r3_def n4_def r2_def n100_def)
  show ?thesis
  proof (cases "n100 = 4")
    case True
    with r r2 have "r2 = 0" by simp
    then have "n4 = 0" "n1 = 0" by (simp_all add: n4_def n1_def r3_def)
    with True show ?thesis unfolding code r_def[symmetric] cyc by simp
  next
    case False
    with n100 n100' have "n100 \<le> 3" by simp
    with n4' n1 n4 n100 show ?thesis unfolding code r_def[symmetric] cyc using False
      by (auto simp: min_def)
  qed
qed

lemma ord_to_year_mono: "x \<le> y \<Longrightarrow> ord_to_year x \<le> ord_to_year y"
proof -
  assume "x \<le> y"
  then have "x - 1 \<le> y - 1" by simp
  then have "400 * ((x - 1) div 146097) + y100 ((x - 1) mod 146097)
           \<le> 400 * ((y - 1) div 146097) + y100 ((y - 1) mod 146097)"
    by (rule lex_mono[where g = y100 and c = 400 and m = 146097, rotated])
       (simp_all add: y100_mono y100_range)
  then show ?thesis by (simp add: ord_to_year_cycles)
qed

lemma dt_year_mono: "x \<le> y \<Longrightarrow> dt_year x \<le> dt_year y"
proof -
  assume "x \<le> y"
  then have "x div 1000 \<le> y div 1000" using zdiv_mono1[of x y 1000] by simp
  then have "x div 1000 div 86400 \<le> y div 1000 div 86400"
    using zdiv_mono1[of "x div 1000" "y div 1000" 86400] by simp
  then have "x div 1000 div 86400 + 719163 \<le> y div 1000 div 86400 + 719163" by simp
  then show ?thesis unfolding dt_year_def by (rule ord_to_year_mono)
qed

section \<open>Claim C5: the row keys of a time range\<close>

lemma join_last_inject:
  "join sep (xs @ [a]) = join sep (xs @ [b]) \<Longrightarrow> a = b"
proof (induction xs)
  case Nil
  then show ?case by simp
next
  case (Cons x xs)
  have "join sep (x # (xs @ [a])) = x @ sep @ join sep (xs @ [a])"
       "join sep (x # (xs @ [b])) = x @ sep @ join sep (xs @ [b])"
    by (simp_all add: join_Cons)
  with Cons.prems have "join sep (xs @ [a]) = join sep (xs @ [b])" by simp
  then show ?case by (rule Cons.IH)
qed

lemma get_rowkey_year_inject:
  assumes "y \<noteq> 0" "y' \<noteq> 0" "get_rowkey p f (Some y) = get_rowkey p f (Some y')"
  shows "y = y'"
proof -
  let ?xs = "escape_path p @ (if truthy f then [str_int (the f)] else [])"
  have "get_rowkey p f (Some y) = join KEY_DELIMITER (?xs @ [str_int y])"
       "get_rowkey p f (Some y') = join KEY_DELIMITER (?xs @ [str_int y'])"
    using assms(1,2) by (simp_all add: get_rowkey_def)
  with assms(3) have "str_int y = str_int y'" by (simp only: join_last_inject)
  then show ?thesis by (rule str_int_inject)
qed

lemma get_row_keys_range:
  "get_row_keys p f a b
     = (if 1 \<le> dt_year a \<and> dt_year a \<le> 9999 \<and> 1 \<le> dt_year b \<and> dt_year b \<le> 9999
        then Inr (map (\<lambda>year. get_rowkey p f (Some year)) [dt_year a..dt_year b])
        else Inl ValueError)"
  by (simp add: get_row_keys_def utcfromtimestamp_ms_def Let_def)

text \<open>
  C5. For \<open>ts_min \<le> ts_max\<close> within the years 1 to 9999 the row keys are the encoded
  \<open>(path, freq, year)\<close> for the years from the year of \<open>ts_min\<close> to the year of \<open>ts_max\<close>,
  in this order: the list is not empty, has one key for every year of the range, and no
  key occurs twice.
\<close>

theorem year_shard_keys:
  assumes "ts_min \<le> ts_max" and "1 \<le> dt_year ts_min" and "dt_year ts_max \<le> 9999"
  shows "get_row_keys p f ts_min ts_max
           = Inr (map (\<lambda>year. get_rowkey p f (Some year)) [dt_year ts_min..dt_year ts_max])
       \<and> dt_year ts_min \<le> dt_year ts_max
       \<and> length (map (\<lambda>year. get_rowkey p f (Some year)) [dt_year ts_min..dt_year ts_max])
           = nat (dt_year ts_max - dt_year ts_min + 1)
       \<and> distinct (map (\<lambda>year. get_rowkey p f (Some year)) [dt_year ts_min..dt_year ts_max])"
proof -
  have le: "dt_year ts_min \<le> dt_year ts_max" using assms(1) by (rule dt_year_mono)
  with assms have keys: "get_row_keys p f ts_min ts_max
           = Inr (map (\<lambda>year. get_rowkey p f (Some year)) [dt_year ts_min..dt_year ts_max])"
    by (simp add: get_row_keys_range)
  have "inj_on (\<lambda>year. get_rowkey p f (Some year)) (set [dt_year ts_min..dt_year ts_max])"
    using assms(2) by (intro inj_onI get_rowkey_year_inject[of _ _ p f]) auto
  then have d: "distinct (map (\<lambda>year. get_rowkey p f (Some year))
                  [dt_year ts_min..dt_year ts_max])"
    by (simp add: distinct_map)
  from keys le d show ?thesis by simp
qed

lemma dt_year_s5: "dt_year 1704067140000 = 2023" "dt_year 1704067260000 = 2024"
  by (simp_all add: dt_year_def ord_to_year_def Let_def)

lemma str_int_2023: "str_int 2023 = ''2023''"
  by (simp add: str_int_def str_nat.simps digit_char_def)

lemma str_int_2024: "str_int 2024 = ''2024''"
  by (simp add: str_int_def str_nat.simps digit_char_def)

lemma upto_2023_2024: "[2023..2024] = [2023, 2024 :: int]"
  by (simp add: upto.simps)

theorem year_shard_keys_witness:
  "get_row_keys ex_path (Some 30000) 1704067140000 1704067260000
     = Inr [''r1:ifIn:30000:2023'', ''r1:ifIn:30000:2024'']
   \<and> distinct [''r1:ifIn:30000:2023'', ''r1:ifIn:30000:2024'']"
  using year_shard_keys[of 1704067140000 1704067260000 ex_path "Some 30000"]
  by (simp add: dt_year_s5 upto_2023_2024 get_rowkey_def escape_path_def ex_path_def
        KEY_DELIMITER_def BACKSLASH_def str_replace_char str_int_30000 str_int_2023
        str_int_2024)

section \<open>The newest column of a reversed slice\<close>

lemma last_filter_split:
  assumes "filter P xs \<noteq> []"
  shows "\<exists>pre x post. xs = pre @ x # post \<and> P x \<and> (\<forall>y \<in> set post. \<not> P y)
           \<and> last (filter P xs) = x"
  using assms
proof (induction xs rule: rev_induct)
  case Nil
  then show ?case by simp
next
  case (snoc a xs)
  show ?case
  proof (cases "P a")
    case True
    then have "xs @ [a] = xs @ a # [] \<and> P a \<and> (\<forall>y \<in> set []. \<not> P y)
                 \<and> last (filter P (xs @ [a])) = a"
      by simp
    then show ?thesis by blast
  next
    case False
    with snoc.prems have "filter P xs \<noteq> []" by simp
    from snoc.IH[OF this] obtain pre x post
      where "xs = pre @ x # post" "P x" "\<forall>y \<in> set post. \<not> P y" "last (filter P xs) = x"
      by blast
    with False have "xs @ [a] = pre @ x # (post @ [a]) \<and> P x
                 \<and> (\<forall>y \<in> set (post @ [a]). \<not> P y) \<and> last (filter P (xs @ [a])) = x"
      by simp
    then show ?thesis by blast
  qed
qed

lemma row_slice_latest:
  "row_slice r hi lo 1 True = take 1 (filter (\<lambda>c. lo \<le> fst c \<and> fst c \<le> hi) (rev (sort_key fst r)))"
  by (simp add: row_slice_def)

lemma desc_sorted:
  "sorted_wrt (\<lambda>a b. fst b \<le> fst a)
     (filter P (rev (sort_key fst (r :: (int \<times> 'v) list))))"
proof -
  have "sorted (map fst (sort_key fst r))" by (rule sorted_sort_key)
  then have "sorted_wrt (\<lambda>a b. fst a \<le> fst b) (sort_key fst r)"
    by (simp add: sorted_wrt_map)
  then have "sorted_wrt (\<lambda>a b. fst b \<le> fst a) (rev (sort_key fst r))"
    by (simp add: sorted_wrt_rev)
  then show ?thesis by (rule sorted_wrt_filter)
qed

lemma row_slice_empty:
  "row_slice r hi lo 1 True = [] \<longleftrightarrow> (\<forall>c \<in> set r. \<not> (lo \<le> fst c \<and> fst c \<le> hi))"
  by (auto simp: row_slice_latest filter_empty_conv)

lemma row_slice_newest:
  assumes "row_slice r hi lo 1 True \<noteq> []"
  shows "\<exists>c. row_slice r hi lo 1 True = [c] \<and> c \<in> set r \<and> lo \<le> fst c \<and> fst c \<le> hi
           \<and> (\<forall>c' \<in> set r. lo \<le> fst c' \<and> fst c' \<le> hi \<longrightarrow> fst c' \<le> fst c)"
proof -
  let ?L = "filter (\<lambda>c. lo \<le> fst c \<and> fst c \<le> hi) (rev (sort_key fst r))"
  from assms obtain c rest where L: "?L = c # rest"
    by (cases ?L) (simp_all add: row_slice_latest)
  have "c \<in> set ?L" by (simp add: L)
  then have c: "c \<in> set r" "lo \<le> fst c" "fst c \<le> hi" by simp_all
  have "sorted_wrt (\<lambda>a b. fst b \<le> fst a) (c # rest)"
    using desc_sorted[of "\<lambda>c. lo \<le> fst c \<and> fst c \<le> hi" r] by (simp only: L)
  then have older: "\<forall>x \<in> set rest. fst x \<le> fst c" by simp
  have "fst c' \<le> fst c" if "c' \<in> set r" "lo \<le> fst c'" "fst c' \<le> hi" for c'
  proof -
    from that have "c' \<in> set ?L" by simp
    then have "c' = c \<or> c' \<in> set rest" by (simp add: L)
    with older show ?thesis by auto
  qed
  moreover have "row_slice r hi lo 1 True = [c]" by (simp add: row_slice_latest L)
  ultimately show ?thesis using c by blast
qed

lemma multiget_latest_empty:
  assumes "\<forall>k \<in> set keys. \<forall>c \<in> set (cfam k). \<not> (lo \<le> fst c \<and> fst c \<le> hi)"
  shows "multiget cfam keys hi lo 1 True = []"
  using assms by (auto simp: multiget_def filter_empty_conv row_slice_empty)

lemma multiget_latest_last:
  assumes "k0 \<in> set keys" "c0 \<in> set (cfam k0)" "lo \<le> fst c0" "fst c0 \<le> hi"
  shows "\<exists>pre k post c. keys = pre @ k # post
           \<and> multiget cfam keys hi lo 1 True \<noteq> []
           \<and> snd (last (multiget cfam keys hi lo 1 True)) = [c]
           \<and> c \<in> set (cfam k) \<and> lo \<le> fst c \<and> fst c \<le> hi
           \<and> (\<forall>c' \<in> set (cfam k). lo \<le> fst c' \<and> fst c' \<le> hi \<longrightarrow> fst c' \<le> fst c)
           \<and> (\<forall>k' \<in> set post. \<forall>c' \<in> set (cfam k'). \<not> (lo \<le> fst c' \<and> fst c' \<le> hi))"
proof -
  let ?h = "\<lambda>k. (k, row_slice (cfam k) hi lo 1 True)"
  let ?P = "\<lambda>kv :: string \<times> (int \<times> 'a) list. snd kv \<noteq> []"
  have ret: "multiget cfam keys hi lo 1 True = filter ?P (map ?h keys)"
    by (simp add: multiget_def)
  have "row_slice (cfam k0) hi lo 1 True \<noteq> []"
    using assms(2,3,4) by (auto simp: row_slice_empty)
  then have "?h k0 \<in> set (filter ?P (map ?h keys))" using assms(1) by simp
  then have ne: "filter ?P (map ?h keys) \<noteq> []" by (metis empty_iff empty_set)
  from last_filter_split[OF ne] obtain xpre x xpost
    where sp: "map ?h keys = xpre @ x # xpost" and px: "?P x"
      and post: "\<forall>y \<in> set xpost. \<not> ?P y" and lst: "last (filter ?P (map ?h keys)) = x"
    by blast
  from sp obtain pre k post
    where keys: "keys = pre @ k # post" and x: "x = ?h k" and xpost: "xpost = map ?h post"
    by (auto simp: map_eq_append_conv append_eq_map_conv Cons_eq_map_conv)
  from px x have "row_slice (cfam k) hi lo 1 True \<noteq> []" by simp
  from row_slice_newest[OF this] obtain c
    where c: "row_slice (cfam k) hi lo 1 True = [c]" "c \<in> set (cfam k)" "lo \<le> fst c"
      "fst c \<le> hi"
      "\<forall>c' \<in> set (cfam k). lo \<le> fst c' \<and> fst c' \<le> hi \<longrightarrow> fst c' \<le> fst c"
    by blast
  have later: "\<forall>k' \<in> set post. \<forall>c' \<in> set (cfam k'). \<not> (lo \<le> fst c' \<and> fst c' \<le> hi)"
  proof
    fix k' assume "k' \<in> set post"
    then have "?h k' \<in> set xpost" by (simp add: xpost)
    with post have "row_slice (cfam k') hi lo 1 True = []" by auto
    then show "\<forall>c' \<in> set (cfam k'). \<not> (lo \<le> fst c' \<and> fst c' \<le> hi)"
      by (simp add: row_slice_empty)
  qed
  have "snd (last (multiget cfam keys hi lo 1 True)) = [c]"
    by (simp add: ret lst x c(1))
  with keys ne c later show ?thesis unfolding ret by blast
qed

section \<open>Claim C3: the cold load of the metadata\<close>

lemma upto_split_sorted:
  assumes "[a..b] = ys1 @ y # ys2" and "y' \<in> set ys1"
  shows "y' < (y :: int)"
proof -
  have "sorted (ys1 @ y # ys2)" "distinct (ys1 @ y # ys2)"
    using assms(1)[symmetric] by simp_all
  with assms(2) show ?thesis by (auto simp: sorted_append less_le)
qed

text \<open>
  C3. For a sample whose series is not in the metadata cache, \<open>get_metadata\<close> reads the
  row keys of the years from \<open>lo\<close> to \<open>hi\<close>, where \<open>hi\<close> is one millisecond before the
  sample (cut to whole seconds) and \<open>lo\<close> is 30 days before \<open>hi\<close>. If no row has a column
  between \<open>lo\<close> and \<open>hi\<close>, the metadata is seeded from the sample. Otherwise it is seeded
  from a stored column \<open>(t, v)\<close> of the window: the newest column of the window in its
  row, no later row having a column in the window; when every row holds only columns of
  its own year, this is the newest column of the window in all the rows. In both cases
  the record returned is installed in the cache under the key of the series, and nothing
  else of the state changes.
\<close>

theorem metadata_cold_load:
  assumes absent: "metadata_cache db (get_meta_key rd) = None"
    and hi: "hi = ts_to_jstime (rd_ts rd) - 1"
    and lo: "lo = hi - SEEK_BACK_THRESHOLD"
    and valid: "1 \<le> dt_year lo" "dt_year hi \<le> 9999"
    and keys: "keys = map (\<lambda>year. get_rowkey (rd_path rd) (rd_freq rd) (Some year))
                        [dt_year lo..dt_year hi]"
  shows "((\<forall>k \<in> set keys. \<forall>c \<in> set (raw_data db k). \<not> (lo \<le> fst c \<and> fst c \<le> hi)) \<longrightarrow>
            get_metadata db rd
              = (Inr \<lparr>md_path = rd_path rd, md_last_update = rd_ts rd, md_last_val = rd_val rd,
                      md_min_ts = rd_ts rd, md_freq = rd_freq rd\<rparr>,
                 db\<lparr>metadata_cache := (metadata_cache db)(get_meta_key rd \<mapsto>
                   \<lparr>md_path = rd_path rd, md_last_update = rd_ts rd, md_last_val = rd_val rd,
                    md_min_ts = rd_ts rd, md_freq = rd_freq rd\<rparr>)\<rparr>)
            \<and> metadata_cache (snd (get_metadata db rd)) (get_meta_key rd)
                = Some \<lparr>md_path = rd_path rd, md_last_update = rd_ts rd,
                        md_last_val = rd_val rd, md_min_ts = rd_ts rd, md_freq = rd_freq rd\<rparr>)
       \<and> ((\<exists>k \<in> set keys. \<exists>c \<in> set (raw_data db k). lo \<le> fst c \<and> fst c \<le> hi) \<longrightarrow>
            (\<exists>k t v. k \<in> set keys \<and> (t, v) \<in> set (raw_data db k) \<and> lo \<le> t \<and> t \<le> hi
               \<and> (\<forall>c \<in> set (raw_data db k). lo \<le> fst c \<and> fst c \<le> hi \<longrightarrow> fst c \<le> t)
               \<and> ((\<forall>year \<in> set [dt_year lo..dt_year hi].
                      \<forall>c \<in> set (raw_data db (get_rowkey (rd_path rd) (rd_freq rd) (Some year))).
                        dt_year (fst c) = year) \<longrightarrow>
                    (\<forall>k' \<in> set keys. \<forall>c \<in> set (raw_data db k').
                        lo \<le> fst c \<and> fst c \<le> hi \<longrightarrow> fst c \<le> t))
               \<and> get_metadata db rd
                   = (Inr \<lparr>md_path = rd_path rd, md_last_update = t, md_last_val = v,
                           md_min_ts = t, md_freq = rd_freq rd\<rparr>,
                      db\<lparr>metadata_cache := (metadata_cache db)(get_meta_key rd \<mapsto>
                        \<lparr>md_path = rd_path rd, md_last_update = t, md_last_val = v,
                         md_min_ts = t, md_freq = rd_freq rd\<rparr>)\<rparr>)
               \<and> metadata_cache (snd (get_metadata db rd)) (get_meta_key rd)
                   = Some \<lparr>md_path = rd_path rd, md_last_update = t, md_last_val = v,
                           md_min_ts = t, md_freq = rd_freq rd\<rparr>))"
proof -
  let ?g = "\<lambda>year. get_rowkey (rd_path rd) (rd_freq rd) (Some year)"
  have lohi: "lo \<le> hi" by (simp add: lo SEEK_BACK_THRESHOLD_def)
  then have yle: "dt_year lo \<le> dt_year hi" by (rule dt_year_mono)
  have rk: "get_row_keys (rd_path rd) (rd_freq rd) lo hi = Inr keys"
    using valid yle by (simp add: get_row_keys_range keys)
  have unfold: "get_metadata db rd =
      (let ret = multiget (raw_data db) keys hi lo 1 True in
       if ret \<noteq> [] then
         (case snd (last ret) of
            [] \<Rightarrow> (Inl IndexError, db)
          | (t, v) # _ \<Rightarrow>
              (case utcfromtimestamp_ms t of
                 Inl e \<Rightarrow> (Inl e, db)
               | Inr d \<Rightarrow>
                   (Inr \<lparr>md_path = rd_path rd, md_last_update = d, md_last_val = v,
                         md_min_ts = d, md_freq = rd_freq rd\<rparr>,
                    set_metadata db (get_meta_key rd)
                      \<lparr>md_path = rd_path rd, md_last_update = d, md_last_val = v,
                       md_min_ts = d, md_freq = rd_freq rd\<rparr>)))
       else
         (Inr \<lparr>md_path = rd_path rd, md_last_update = rd_ts rd, md_last_val = rd_val rd,
               md_min_ts = rd_ts rd, md_freq = rd_freq rd\<rparr>,
          set_metadata db (get_meta_key rd)
            \<lparr>md_path = rd_path rd, md_last_update = rd_ts rd, md_last_val = rd_val rd,
             md_min_ts = rd_ts rd, md_freq = rd_freq rd\<rparr>))"
    using absent rk[unfolded lo hi]
    by (auto simp: get_metadata_def Let_def hi lo split: list.splits sum.splits)
  have none: "get_metadata db rd
              = (Inr \<lparr>md_path = rd_path rd, md_last_update = rd_ts rd, md_last_val = rd_val rd,
                      md_min_ts = rd_ts rd, md_freq = rd_freq rd\<rparr>,
                 set_metadata db (get_meta_key rd)
                   \<lparr>md_path = rd_path rd, md_last_update = rd_ts rd, md_last_val = rd_val rd,
                    md_min_ts = rd_ts rd, md_freq = rd_freq rd\<rparr>)"
    if "\<forall>k \<in> set keys. \<forall>c \<in> set (raw_data db k). \<not> (lo \<le> fst c \<and> fst c \<le> hi)"
    using multiget_latest_empty[OF that] by (simp add: unfold)
  have found: "\<exists>k t v. k \<in> set keys \<and> (t, v) \<in> set (raw_data db k) \<and> lo \<le> t \<and> t \<le> hi
               \<and> (\<forall>c \<in> set (raw_data db k). lo \<le> fst c \<and> fst c \<le> hi \<longrightarrow> fst c \<le> t)
               \<and> ((\<forall>year \<in> set [dt_year lo..dt_year hi].
                      \<forall>c \<in> set (raw_data db (?g year)). dt_year (fst c) = year) \<longrightarrow>
                    (\<forall>k' \<in> set keys. \<forall>c \<in> set (raw_data db k').
                        lo \<le> fst c \<and> fst c \<le> hi \<longrightarrow> fst c \<le> t))
               \<and> get_metadata db rd
                   = (Inr \<lparr>md_path = rd_path rd, md_last_update = t, md_last_val = v,
                           md_min_ts = t, md_freq = rd_freq rd\<rparr>,
                      set_metadata db (get_meta_key rd)
                        \<lparr>md_path = rd_path rd, md_last_update = t, md_last_val = v,
                         md_min_ts = t, md_freq = rd_freq rd\<rparr>)"
    if ex: "\<exists>k \<in> set keys. \<exists>c \<in> set (raw_data db k). lo \<le> fst c \<and> fst c \<le> hi"
  proof -
    from ex obtain k0 c0 where kc: "k0 \<in> set keys" "c0 \<in> set (raw_data db k0)"
      "lo \<le> fst c0" "fst c0 \<le> hi" by blast
    from multiget_latest_last[where cfam = "raw_data db", OF kc] obtain pre k post c
      where sp: "keys = pre @ k # post"
        and ne: "multiget (raw_data db) keys hi lo 1 True \<noteq> []"
        and lst: "snd (last (multiget (raw_data db) keys hi lo 1 True)) = [c]"
        and c: "c \<in> set (raw_data db k)" "lo \<le> fst c" "fst c \<le> hi"
        and newest: "\<forall>c' \<in> set (raw_data db k). lo \<le> fst c' \<and> fst c' \<le> hi \<longrightarrow> fst c' \<le> fst c"
        and later: "\<forall>k' \<in> set post. \<forall>c' \<in> set (raw_data db k').
                      \<not> (lo \<le> fst c' \<and> fst c' \<le> hi)"
      by blast
    obtain t v where tv: "c = (t, v)" by (cases c)
    have kin: "k \<in> set keys" by (simp add: sp)
    have "dt_year lo \<le> dt_year t" "dt_year t \<le> dt_year hi"
      using c(2,3) by (simp_all add: tv dt_year_mono)
    with valid have vt: "utcfromtimestamp_ms t = Inr t" by (simp add: utcfromtimestamp_ms_def)
    have res: "get_metadata db rd
                   = (Inr \<lparr>md_path = rd_path rd, md_last_update = t, md_last_val = v,
                           md_min_ts = t, md_freq = rd_freq rd\<rparr>,
                      set_metadata db (get_meta_key rd)
                        \<lparr>md_path = rd_path rd, md_last_update = t, md_last_val = v,
                         md_min_ts = t, md_freq = rd_freq rd\<rparr>)"
      using ne by (simp add: unfold lst tv vt)
    have global: "\<forall>k' \<in> set keys. \<forall>c' \<in> set (raw_data db k').
                        lo \<le> fst c' \<and> fst c' \<le> hi \<longrightarrow> fst c' \<le> t"
      if sh: "\<forall>year \<in> set [dt_year lo..dt_year hi].
                      \<forall>c \<in> set (raw_data db (?g year)). dt_year (fst c) = year"
    proof (intro ballI impI)
      fix k' c'
      assume k': "k' \<in> set keys" and c': "c' \<in> set (raw_data db k')"
        and w: "lo \<le> fst c' \<and> fst c' \<le> hi"
      from sp keys obtain ys1 y ys2
        where ys: "[dt_year lo..dt_year hi] = ys1 @ y # ys2" and ky: "k = ?g y"
          and posts: "post = map ?g ys2" and pres: "pre = map ?g ys1"
        by (auto simp: map_eq_append_conv append_eq_map_conv Cons_eq_map_conv
              dest!: sym[of "map _ _"])
      from k' sp have "k' \<in> set pre \<or> k' = k \<or> k' \<in> set post" by auto
      then show "fst c' \<le> t"
      proof (elim disjE)
        assume "k' \<in> set pre"
        then obtain y' where y': "y' \<in> set ys1" "k' = ?g y'" by (auto simp: pres)
        then have "y' < y" using upto_split_sorted[OF ys] by simp
        moreover have yin: "y' \<in> set [dt_year lo..dt_year hi]" "y \<in> set [dt_year lo..dt_year hi]"
          using y'(1) by (simp_all only: ys) simp_all
        have "dt_year (fst c') = y'"
          using sh[rule_format, OF yin(1), of c'] c' by (simp add: y'(2))
        moreover have "dt_year t = y"
          using sh[rule_format, OF yin(2), of c] c(1) by (simp add: ky tv)
        ultimately have "dt_year (fst c') < dt_year t" by simp
        then show ?thesis using dt_year_mono[of t "fst c'"] by (cases "fst c' \<le> t") auto
      next
        assume "k' = k"
        with newest c' w show ?thesis by (auto simp: tv)
      next
        assume "k' \<in> set post"
        with later c' w show ?thesis by blast
      qed
    qed
    from kin c newest global res show ?thesis unfolding tv by (intro exI[of _ k] exI[of _ t] exI[of _ v]) auto
  qed
  have none_installed: "get_metadata db rd
              = (Inr \<lparr>md_path = rd_path rd, md_last_update = rd_ts rd, md_last_val = rd_val rd,
                      md_min_ts = rd_ts rd, md_freq = rd_freq rd\<rparr>,
                 db\<lparr>metadata_cache := (metadata_cache db)(get_meta_key rd \<mapsto>
                   \<lparr>md_path = rd_path rd, md_last_update = rd_ts rd, md_last_val = rd_val rd,
                    md_min_ts = rd_ts rd, md_freq = rd_freq rd\<rparr>)\<rparr>)
            \<and> metadata_cache (snd (get_metadata db rd)) (get_meta_key rd)
                = Some \<lparr>md_path = rd_path rd, md_last_update = rd_ts rd,
                        md_last_val = rd_val rd, md_min_ts = rd_ts rd, md_freq = rd_freq rd\<rparr>"
    if "\<forall>k \<in> set keys. \<forall>c \<in> set (raw_data db k). \<not> (lo \<le> fst c \<and> fst c \<le> hi)"
    using none[OF that] by (simp add: set_metadata_def)
  have found_installed:
    "\<exists>k t v. k \<in> set keys \<and> (t, v) \<in> set (raw_data db k) \<and> lo \<le> t \<and> t \<le> hi
               \<and> (\<forall>c \<in> set (raw_data db k). lo \<le> fst c \<and> fst c \<le> hi \<longrightarrow> fst c \<le> t)
               \<and> ((\<forall>year \<in> set [dt_year lo..dt_year hi].
                      \<forall>c \<in> set (raw_data db (?g year)). dt_year (fst c) = year) \<longrightarrow>
                    (\<forall>k' \<in> set keys. \<forall>c \<in> set (raw_data db k').
                        lo \<le> fst c \<and> fst c \<le> hi \<longrightarrow> fst c \<le> t))
               \<and> get_metadata db rd
                   = (Inr \<lparr>md_path = rd_path rd, md_last_update = t, md_last_val = v,
                           md_min_ts = t, md_freq = rd_freq rd\<rparr>,
                      db\<lparr>metadata_cache := (metadata_cache db)(get_meta_key rd \<mapsto>
                        \<lparr>md_path = rd_path rd, md_last_update = t, md_last_val = v,
                         md_min_ts = t, md_freq = rd_freq rd\<rparr>)\<rparr>)
               \<and> metadata_cache (snd (get_metadata db rd)) (get_meta_key rd)
                   = Some \<lparr>md_path = rd_path rd, md_last_update = t, md_last_val = v,
                           md_min_ts = t, md_freq = rd_freq rd\<rparr>"
    if ex: "\<exists>k \<in> set keys. \<exists>c \<in> set (raw_data db k). lo \<le> fst c \<and> fst c \<le> hi"
  proof -
    from found[OF ex] obtain k t v
      where p: "k \<in> set keys" "(t, v) \<in> set (raw_data db k)" "lo \<le> t" "t \<le> hi"
          "\<forall>c \<in> set (raw_data db k). lo \<le> fst c \<and> fst c \<le> hi \<longrightarrow> fst c \<le> t"
          "(\<forall>year \<in> set [dt_year lo..dt_year hi].
                      \<forall>c \<in> set (raw_data db (?g year)). dt_year (fst c) = year) \<longrightarrow>
                    (\<forall>k' \<in> set keys. \<forall>c \<in> set (raw_data db k').
                        lo \<le> fst c \<and> fst c \<le> hi \<longrightarrow> fst c \<le> t)"
        and res: "get_metadata db rd
                   = (Inr \<lparr>md_path = rd_path rd, md_last_update = t, md_last_val = v,
                           md_min_ts = t, md_freq = rd_freq rd\<rparr>,
                      set_metadata db (get_meta_key rd)
                        \<lparr>md_path = rd_path rd, md_last_update = t, md_last_val = v,
                         md_min_ts = t, md_freq = rd_freq rd\<rparr>)"
      by blast
    from res have r: "get_metadata db rd
                   = (Inr \<lparr>md_path = rd_path rd, md_last_update = t, md_last_val = v,
                           md_min_ts = t, md_freq = rd_freq rd\<rparr>,
                      db\<lparr>metadata_cache := (metadata_cache db)(get_meta_key rd \<mapsto>
                        \<lparr>md_path = rd_path rd, md_last_update = t, md_last_val = v,
                         md_min_ts = t, md_freq = rd_freq rd\<rparr>)\<rparr>)"
      "metadata_cache (snd (get_metadata db rd)) (get_meta_key rd)
                   = Some \<lparr>md_path = rd_path rd, md_last_update = t, md_last_val = v,
                           md_min_ts = t, md_freq = rd_freq rd\<rparr>"
      by (simp_all add: set_metadata_def)
    from p r show ?thesis by (intro exI[of _ k] exI[of _ t] exI[of _ v] conjI)
  qed
  from none_installed found_installed show ?thesis by blast
qed

lemma ex_meta_key: "get_meta_key (ex_sample x) = ''r1:ifIn:30000''"
  by (simp add: get_meta_key_def ex_sample_def get_rowkey_def escape_path_def ex_path_def
        KEY_DELIMITER_def BACKSLASH_def str_replace_char str_int_30000)

lemma ex_window:
  "ts_to_jstime (rd_ts (ex_sample x)) - 1 = 1343955659999"
  "1343955659999 - SEEK_BACK_THRESHOLD = 1341363659999"
  by (simp_all add: ex_sample_def ts_to_jstime_def SEEK_BACK_THRESHOLD_def)

lemma ex_window_years: "dt_year 1341363659999 = 2012" "dt_year 1343955659999 = 2012"
  by (simp_all add: dt_year_def ord_to_year_def Let_def)

lemma ex_window_keys:
  "[''r1:ifIn:30000:2012'']
     = map (\<lambda>year. get_rowkey (rd_path (ex_sample x)) (rd_freq (ex_sample x)) (Some year))
         [dt_year 1341363659999..dt_year 1343955659999]"
  using ex_keys(1) by (simp add: ex_window_years ex_sample_def upto.simps)

theorem metadata_cold_load_witness:
  "get_metadata ex_db (ex_sample 160)
     = (Inr \<lparr>md_path = ex_path, md_last_update = 1343955630000, md_last_val = 130,
             md_min_ts = 1343955630000, md_freq = Some 30000\<rparr>,
        ex_db\<lparr>metadata_cache := (metadata_cache ex_db)(''r1:ifIn:30000'' \<mapsto>
          \<lparr>md_path = ex_path, md_last_update = 1343955630000, md_last_val = 130,
           md_min_ts = 1343955630000, md_freq = Some 30000\<rparr>)\<rparr>)
   \<and> metadata_cache (snd (get_metadata ex_db (ex_sample 160))) ''r1:ifIn:30000''
     = Some \<lparr>md_path = ex_path, md_last_update = 1343955630000, md_last_val = 130,
             md_min_ts = 1343955630000, md_freq = Some 30000\<rparr>
   \<and> get_metadata (ex_db\<lparr>raw_data := \<lambda>k. []\<rparr>) (ex_sample 160)
     = (Inr \<lparr>md_path = ex_path, md_last_update = 1343955660000, md_last_val = 160,
             md_min_ts = 1343955660000, md_freq = Some 30000\<rparr>,
        ex_db\<lparr>raw_data := \<lambda>k. [],
              metadata_cache := (metadata_cache ex_db)(''r1:ifIn:30000'' \<mapsto>
          \<lparr>md_path = ex_path, md_last_update = 1343955660000, md_last_val = 160,
           md_min_ts = 1343955660000, md_freq = Some 30000\<rparr>)\<rparr>)
   \<and> metadata_cache (snd (get_metadata (ex_db\<lparr>raw_data := \<lambda>k. []\<rparr>) (ex_sample 160)))
         ''r1:ifIn:30000''
     = Some \<lparr>md_path = ex_path, md_last_update = 1343955660000, md_last_val = 160,
             md_min_ts = 1343955660000, md_freq = Some 30000\<rparr>"
proof -
  have v: "1 \<le> dt_year 1341363659999" "dt_year 1343955659999 \<le> 9999"
    by (simp_all add: ex_window_years)
  have a1: "metadata_cache ex_db (get_meta_key (ex_sample 160)) = None"
    by (simp add: ex_db_def)
  note th1 = metadata_cold_load[OF a1 ex_window(1)[symmetric] ex_window(2)[symmetric] v ex_window_keys]
  have "\<exists>k \<in> set [''r1:ifIn:30000:2012'']. \<exists>c \<in> set (raw_data ex_db k).
          1341363659999 \<le> fst c \<and> fst c \<le> 1343955659999"
    by (simp add: ex_db_def)
  with th1 obtain k t v
    where k: "k \<in> set [''r1:ifIn:30000:2012'']" and tv: "(t, v) \<in> set (raw_data ex_db k)"
      and newest: "\<forall>c \<in> set (raw_data ex_db k).
                     1341363659999 \<le> fst c \<and> fst c \<le> 1343955659999 \<longrightarrow> fst c \<le> t"
      and res: "get_metadata ex_db (ex_sample 160)
                   = (Inr \<lparr>md_path = rd_path (ex_sample 160), md_last_update = t,
                           md_last_val = v, md_min_ts = t, md_freq = rd_freq (ex_sample 160)\<rparr>,
                      ex_db\<lparr>metadata_cache := (metadata_cache ex_db)
                        (get_meta_key (ex_sample 160) \<mapsto>
                        \<lparr>md_path = rd_path (ex_sample 160), md_last_update = t,
                         md_last_val = v, md_min_ts = t,
                         md_freq = rd_freq (ex_sample 160)\<rparr>)\<rparr>)"
      and inst: "metadata_cache (snd (get_metadata ex_db (ex_sample 160)))
                     (get_meta_key (ex_sample 160))
                   = Some \<lparr>md_path = rd_path (ex_sample 160), md_last_update = t,
                           md_last_val = v, md_min_ts = t, md_freq = rd_freq (ex_sample 160)\<rparr>"
    by blast
  from k tv newest have e: "t = 1343955630000 \<and> v = 130" by (auto simp: ex_db_def)
  from res e have c1: "get_metadata ex_db (ex_sample 160)
     = (Inr \<lparr>md_path = ex_path, md_last_update = 1343955630000, md_last_val = 130,
             md_min_ts = 1343955630000, md_freq = Some 30000\<rparr>,
        ex_db\<lparr>metadata_cache := (metadata_cache ex_db)(''r1:ifIn:30000'' \<mapsto>
          \<lparr>md_path = ex_path, md_last_update = 1343955630000, md_last_val = 130,
           md_min_ts = 1343955630000, md_freq = Some 30000\<rparr>)\<rparr>)"
    by (simp add: ex_meta_key) (simp add: ex_sample_def)
  from inst e have c2: "metadata_cache (snd (get_metadata ex_db (ex_sample 160))) ''r1:ifIn:30000''
     = Some \<lparr>md_path = ex_path, md_last_update = 1343955630000, md_last_val = 130,
             md_min_ts = 1343955630000, md_freq = Some 30000\<rparr>"
    by (simp add: ex_meta_key) (simp add: ex_sample_def)
  let ?db = "ex_db\<lparr>raw_data := \<lambda>k. []\<rparr>"
  have a2: "metadata_cache ?db (get_meta_key (ex_sample 160)) = None"
    by (simp add: ex_db_def)
  note th2 = metadata_cold_load[OF a2 ex_window(1)[symmetric] ex_window(2)[symmetric] v ex_window_keys,
      THEN conjunct1]
  have c3: "get_metadata ?db (ex_sample 160)
     = (Inr \<lparr>md_path = ex_path, md_last_update = 1343955660000, md_last_val = 160,
             md_min_ts = 1343955660000, md_freq = Some 30000\<rparr>,
        ex_db\<lparr>raw_data := \<lambda>k. [],
              metadata_cache := (metadata_cache ex_db)(''r1:ifIn:30000'' \<mapsto>
          \<lparr>md_path = ex_path, md_last_update = 1343955660000, md_last_val = 160,
           md_min_ts = 1343955660000, md_freq = Some 30000\<rparr>)\<rparr>)"
    using th2 by (simp add: ex_meta_key) (simp add: ex_sample_def)
  have c4: "metadata_cache (snd (get_metadata ?db (ex_sample 160))) ''r1:ifIn:30000''
     = Some \<lparr>md_path = ex_path, md_last_update = 1343955660000, md_last_val = 160,
             md_min_ts = 1343955660000, md_freq = Some 30000\<rparr>"
    using th2 by (simp add: ex_meta_key) (simp add: ex_sample_def)
  from c1 c2 c3 c4 show ?thesis by (intro conjI)
qed

end
